theory Spec2Isabelle
  imports Complex_Main "HOL-Library.Word" "HOL-Library.Sublist"
begin

section \<open>JavaScript strings\<close>

text \<open>
  A JavaScript string is a sequence of UTF-16 code units, and \<open>.length\<close> counts code
  units. The controller's texts contain U+2019 (the apostrophe of the fallback message)
  and U+2022 (the bullet of the multi-match list), so a string is a list of 16-bit words;
  \<open>ascii\<close> embeds an ASCII literal.
\<close>

type_synonym jschar = "16 word"
type_synonym jsstring = "jschar list"

definition ascii :: "string \<Rightarrow> jsstring" where
  "ascii cs = map of_char cs"

text \<open>
  The code units that \<open>String.prototype.trim\<close> strips and that the regular expression
  class \<open>\s\<close> matches (ECMAScript WhiteSpace and LineTerminator; the two sets are the same).
\<close>

definition isWhiteSpace :: "jschar \<Rightarrow> bool" where
  "isWhiteSpace c \<longleftrightarrow>
     c \<in> {0x0009, 0x000A, 0x000B, 0x000C, 0x000D, 0x0020, 0x00A0, 0x1680,
          0x2028, 0x2029, 0x202F, 0x205F, 0x3000, 0xFEFF}
     \<or> (0x2000 \<le> c \<and> c \<le> 0x200A)"

definition trim :: "jsstring \<Rightarrow> jsstring" where
  "trim s = rev (dropWhile isWhiteSpace (rev (dropWhile isWhiteSpace s)))"

text \<open>
  \<open>s.split(/\s+/)\<close>: the pieces between maximal runs of white space. A run at the start
  or at the end of \<open>s\<close> leaves an empty piece there, and the empty string splits to one
  empty piece. \<open>cur\<close> is the piece being read.
\<close>

function splitFrom :: "jsstring \<Rightarrow> jsstring \<Rightarrow> jsstring list" where
  "splitFrom cur [] = [cur]"
| "splitFrom cur (c # cs) =
     (if isWhiteSpace c then cur # splitFrom [] (dropWhile isWhiteSpace cs)
      else splitFrom (cur @ [c]) cs)"
  by pat_completeness auto
termination
  by (relation "measure (\<lambda>(cur, s). length s)")
     (auto simp: le_imp_less_Suc length_dropWhile_le)

definition split_ws :: "jsstring \<Rightarrow> jsstring list" where
  "split_ws s = splitFrom [] s"

text \<open>\<open>xs.join(sep)\<close>\<close>

fun join :: "jsstring \<Rightarrow> jsstring list \<Rightarrow> jsstring" where
  "join sep [] = []"
| "join sep [x] = x"
| "join sep (x # y # ys) = x @ sep @ join sep (y # ys)"

text \<open>\<open>s.includes(t)\<close> and \<open>s.startsWith(t)\<close>\<close>

definition includesStr :: "jsstring \<Rightarrow> jsstring \<Rightarrow> bool" where
  "includesStr s t = sublist t s"

definition startsWith :: "jsstring \<Rightarrow> jsstring \<Rightarrow> bool" where
  "startsWith s t = prefix t s"


section \<open>JavaScript numbers\<close>

text \<open>
  A JavaScript number is an IEEE 754 double. A finite double is modelled by the real number
  it stands for. Comparisons of doubles are exact, so they are the comparisons of the reals.
  An arithmetic operation gives the exact result rounded to the nearest double, ties to the
  even significand: \<open>roundToDouble\<close>. It is also how a decimal literal of the source
  becomes a number. \<open>ilog2 x\<close> is the binary exponent of a positive \<open>x\<close>, \<open>ulp x\<close> the
  spacing of the doubles around \<open>x\<close> (the exponent does not go below -1022, where the
  subnormal numbers begin). A result beyond the largest double would be \<open>Infinity\<close>; it is
  not modelled, since the one operation of the controller is followed by a test for being
  below 0.06, which fails of \<open>Infinity\<close> as it does of the number this model gives.
\<close>

definition pow2 :: "int \<Rightarrow> real" where
  "pow2 e = (if 0 \<le> e then 2 ^ nat e else 1 / 2 ^ nat (- e))"

function ilog2 :: "real \<Rightarrow> int" where
  "ilog2 x = (if x \<le> 0 then 0
              else if 2 \<le> x then ilog2 (x / 2) + 1
              else if x < 1 then ilog2 (2 * x) - 1
              else 0)"
  by pat_completeness auto
termination
proof (relation "measure (\<lambda>x. nat \<bar>\<lfloor>log 2 x\<rfloor>\<bar>)")
  show "wf (measure (\<lambda>x. nat \<bar>\<lfloor>log 2 x\<rfloor>\<bar>))" by simp
next
  fix x :: real
  assume a: "\<not> x \<le> 0" "2 \<le> x"
  then have "log 2 (x / 2) = log 2 x - 1" by (simp add: log_divide)
  moreover have "1 \<le> log 2 x" using a by (simp add: le_log_iff)
  then have "1 \<le> \<lfloor>log 2 x\<rfloor>" by (simp add: le_floor_iff)
  ultimately show "(x / 2, x) \<in> measure (\<lambda>x. nat \<bar>\<lfloor>log 2 x\<rfloor>\<bar>)"
    by simp
next
  fix x :: real
  assume a: "\<not> x \<le> 0" "\<not> 2 \<le> x" "x < 1"
  then have "log 2 (2 * x) = log 2 x + 1" by (simp add: log_mult)
  moreover have "log 2 x < 0" using a by simp
  then have "\<lfloor>log 2 x\<rfloor> \<le> -1" by (simp add: floor_le_iff)
  ultimately show "(2 * x, x) \<in> measure (\<lambda>x. nat \<bar>\<lfloor>log 2 x\<rfloor>\<bar>)"
    by simp
qed

definition ulp :: "real \<Rightarrow> real" where
  "ulp x = pow2 (max (ilog2 \<bar>x\<bar>) (- 1022) - 52)"

definition roundTiesToEven :: "real \<Rightarrow> int" where
  "roundTiesToEven q =
     (let f = \<lfloor>q\<rfloor>; r = q - of_int f
      in if r < 1 / 2 then f else if 1 / 2 < r then f + 1 else if even f then f else f + 1)"

definition roundToDouble :: "real \<Rightarrow> real" where
  "roundToDouble x = (if x = 0 then 0 else of_int (roundTiesToEven (x / ulp x)) * ulp x)"

text \<open>The subtraction \<open>x - y\<close> of two doubles.\<close>

definition fsub :: "real \<Rightarrow> real \<Rightarrow> real" where
  "fsub x y = roundToDouble (x - y)"


section \<open>Data of the controller\<close>

text \<open>
  Scores and vector components are JavaScript numbers: finite doubles, given by their real
  values.
\<close>

type_synonym vector = "real list"

text \<open>An entry of \<open>embeddings.json\<close>.\<close>

record knowledgeEntry =
  k_question :: jsstring
  k_answer :: jsstring
  k_embedding :: vector

text \<open>
  A candidate returned by \<open>findTopMatches\<close>: the fields \<open>question\<close>, \<open>answer\<close> and
  \<open>_score\<close> that the controller reads.
\<close>

record match =
  m_question :: jsstring
  m_answer :: jsstring
  m_score :: real

text \<open>
  The \<open>question\<close> field of a request body is any JSON value. The controller only tells a
  string from everything else (\<open>typeof question !== "string"\<close>), so all other values,
  \<open>undefined\<close> included, are one constructor.
\<close>

datatype jsvalue = JString jsstring | JOther

text \<open>
  \<open>req.body\<close>; a field that is absent is \<open>None\<close> (the destructuring defaults
  \<open>panoNames = []\<close> and \<open>projectNames = []\<close> apply then).
\<close>

record reqbody =
  question :: jsvalue
  panoNames :: "jsstring list option"
  projectNames :: "jsstring list option"

record request =
  body :: "reqbody option"

text \<open>The object returned by \<open>aiIntentRouter\<close>.\<close>

record aiIntent =
  intent :: jsstring
  target :: jsstring

text \<open>
  The values of the \<open>via\<close> field: \<open>"no-vector"\<close>, \<open>"no-match"\<close>, \<open>"multi-match"\<close>,
  \<open>"llm-validated"\<close>, \<open>"llm-reject"\<close>, \<open>"semantic-llm-unavailable"\<close>,
  \<open>"llm-unavailable"\<close>, \<open>"semantic"\<close> and \<open>"error"\<close>.
\<close>

datatype via =
    NoVector | NoMatch | MultiMatch | LlmValidated | LlmReject
  | SemanticLlmUnavailable | LlmUnavailable | Semantic | Error

text \<open>
  What \<open>res.json\<close> is given: \<open>{answer, via}\<close> (\<open>via\<close> is absent in the reply
  "question is required") or \<open>{intent, target}\<close>.
\<close>

datatype response =
    Answer jsstring "via option"
  | Intent jsstring jsstring

datatype exn = Exn jsstring

text \<open>
  The calls that leave the controller, in the order they are made. The log is not a
  variable of the program; it records which collaborator was called with what.
\<close>

datatype call =
    CallRouter jsstring
  | CallCorrectSpelling jsstring
  | CallNormalizeToMeaning jsstring
  | CallCacheGet jsstring
  | CallEmbedText jsstring
  | CallFindTopMatches vector jsstring
  | CallLlmMeaningMatch jsstring jsstring

text \<open>
  The collaborators are not part of these sources: the services of
  \<open>geminiService.js\<close>, \<open>findTopMatches\<close>, \<open>aiIntentRouter\<close>, the file
  \<open>embeddings.json\<close> and the Unicode case mapping of \<open>toLowerCase\<close>. They are
  parameters. A call either throws (\<open>Inl\<close>) or returns (\<open>Inr\<close>);
  \<open>answerGeneralQuestion\<close> may return \<open>null\<close> (\<open>None\<close>). \<open>embFile\<close> is \<open>None\<close>
  when the file does not exist, \<open>Some (Inl e)\<close> when reading or parsing it throws.
\<close>

record env =
  correctSpelling :: "jsstring \<Rightarrow> exn + jsstring"
  normalizeToMeaning :: "jsstring \<Rightarrow> exn + jsstring"
  embedText :: "jsstring \<Rightarrow> exn + vector"
  answerGeneralQuestion :: "jsstring \<Rightarrow> exn + jsstring option"
  findTopMatches :: "vector \<Rightarrow> knowledgeEntry list \<Rightarrow> jsstring \<Rightarrow> nat \<Rightarrow> exn + match list"
  aiIntentRouter :: "jsstring \<Rightarrow> jsstring list \<Rightarrow> jsstring list \<Rightarrow> exn + aiIntent"
  toLowerCase :: "jsstring \<Rightarrow> jsstring"
  embFile :: "(exn + knowledgeEntry list) option"

text \<open>The module variables \<open>memory\<close>, \<open>EMB_CACHE\<close> and \<open>EMBEDDINGS\<close>, and the log.\<close>

record state =
  memory :: jsstring
  EMB_CACHE :: "jsstring \<rightharpoonup> vector"
  EMBEDDINGS :: "knowledgeEntry list"
  calls :: "call list"

definition logCall :: "call \<Rightarrow> state \<Rightarrow> state" where
  "logCall c s = s\<lparr>calls := calls s @ [c]\<rparr>"

text \<open>
  How a block of \<open>handleChat\<close> ends: an exception on its way to the \<open>catch\<close>, a
  \<open>return res.json(...)\<close>, or control going on to the next block with a value.
\<close>

datatype 'a step = Throw exn | Return response | Continue 'a

definition andThen ::
  "'a step \<times> state \<Rightarrow> ('a \<Rightarrow> state \<Rightarrow> 'b step \<times> state) \<Rightarrow> 'b step \<times> state" where
  "andThen m f =
     (case m of
        (Throw e, s) \<Rightarrow> (Throw e, s)
      | (Return r, s) \<Rightarrow> (Return r, s)
      | (Continue x, s) \<Rightarrow> f x s)"


section \<open>The controller\<close>

definition loadEmbeddingsOnce :: "env \<Rightarrow> state \<Rightarrow> state" where
  "loadEmbeddingsOnce env s =
     (if length (EMBEDDINGS s) > 0 then s
      else case embFile env of
             None \<Rightarrow> s\<lparr>EMBEDDINGS := []\<rparr>
           | Some (Inr parsed) \<Rightarrow> s\<lparr>EMBEDDINGS := parsed\<rparr>
           | Some (Inl err) \<Rightarrow> s\<lparr>EMBEDDINGS := []\<rparr>)"

definition smartFallback :: jsstring where
  "smartFallback =
     ascii ''I don'' @ [0x2019] @ ascii ''t have that information in my data. '' @
     ascii ''Please visit https://montforticse.in/ or contact the school office for official details.''"

definition prompt :: "jsstring \<Rightarrow> jsstring \<Rightarrow> jsstring" where
  \<open>prompt userQ candidateQ =
     ascii ''\<newline>Do these questions have EXACTLY the same meaning?\<newline>\<newline>'' @
     ascii ''Rules:\<newline>'' @
     ascii ''- Grammar changes DO NOT matter\<newline>'' @
     ascii ''- Word order DOES NOT matter\<newline>'' @
     ascii ''- Spelling mistakes DO NOT matter\<newline>'' @
     ascii ''- Synonyms count as same meaning:\<newline>'' @
     ascii ''  (school = campus)\<newline>'' @
     ascii ''  (class start time = school timing)\<newline>'' @
     ascii ''  (hostel food = mess food)\<newline>'' @
     ascii ''  (canteen = snack shop)\<newline>\<newline>'' @
     ascii ''Reply ONLY:\<newline>'' @
     ascii ''"yes" or "no"\<newline>\<newline>'' @
     ascii ''User: "'' @ userQ @ ascii ''"\<newline>'' @
     ascii ''Reference: "'' @ candidateQ @ ascii ''"\<newline>  ''\<close>

text \<open>\<open>out || ""\<close>: \<open>null\<close> (and the empty string) becomes the empty string.\<close>

definition orEmpty :: "jsstring option \<Rightarrow> jsstring" where
  "orEmpty out = (case out of None \<Rightarrow> [] | Some t \<Rightarrow> t)"

text \<open>
  \<open>llmMeaningMatch\<close> returns \<open>true\<close>, \<open>false\<close> or \<open>null\<close>: \<open>Some True\<close>,
  \<open>Some False\<close>, \<open>None\<close>.
\<close>

definition llmMeaningMatch :: "env \<Rightarrow> jsstring \<Rightarrow> jsstring \<Rightarrow> bool option" where
  "llmMeaningMatch env userQ candidateQ =
     (case answerGeneralQuestion env (prompt userQ candidateQ) of
        Inl err \<Rightarrow> None
      | Inr out \<Rightarrow>
          (let ans = toLowerCase env (trim (orEmpty out)) in
           if ans = ascii ''yes'' then Some True
           else if ans = ascii ''no'' then Some False
           else if includesStr ans (ascii ''montforticse.in'')
                 \<or> startsWith ans (ascii ''i don'' @ [0x2019] @ ascii ''t have that information'')
                then None
           else None))"

text \<open>
  Lines 130 to 153: loading the store, the required-question check, \<open>trim\<close>, and the
  intent router. \<open>!question\<close> holds of a string exactly when it is empty. A router that
  returns no object makes \<open>aiIntent.intent\<close> throw, which is the \<open>Inl\<close> case.
\<close>

definition entry :: "env \<Rightarrow> request \<Rightarrow> state \<Rightarrow> jsstring step \<times> state" where
  "entry env req s0 =
     (let s = loadEmbeddingsOnce env s0;
          b = (case body req of
                 None \<Rightarrow> \<lparr>question = JOther, panoNames = None, projectNames = None\<rparr>
               | Some b \<Rightarrow> b);
          panos = (case panoNames b of None \<Rightarrow> [] | Some ns \<Rightarrow> ns);
          projects = (case projectNames b of None \<Rightarrow> [] | Some ns \<Rightarrow> ns)
      in case question b of
           JOther \<Rightarrow> (Return (Answer (ascii ''question is required'') None), s)
         | JString raw \<Rightarrow>
             if raw = [] then (Return (Answer (ascii ''question is required'') None), s)
             else
               (let q = trim raw;
                    s1 = logCall (CallRouter q) s
                in case aiIntentRouter env q panos projects of
                     Inl err \<Rightarrow> (Throw err, s1)
                   | Inr ai \<Rightarrow>
                       if intent ai = ascii ''pano''
                       then (Return (Intent (ascii ''pano'') (target ai)), s1)
                       else if intent ai = ascii ''project''
                       then (Return (Intent (ascii ''project'') (target ai)), s1)
                       else (Continue q, s1)))"

text \<open>
  Lines 158 to 177: the follow-up memory, the spelling fix and the normalisation.
  \<open>q\<close> is the variable \<open>question\<close> of the source, after its \<open>trim\<close>.
\<close>

definition finalUser :: "jsstring \<Rightarrow> jsstring \<Rightarrow> jsstring" where
  "finalUser mem q = (if mem \<noteq> [] \<and> length q \<le> 4 then mem @ ascii '' '' @ q else q)"

definition normalizeStage :: "env \<Rightarrow> jsstring \<Rightarrow> state \<Rightarrow> jsstring step \<times> state" where
  "normalizeStage env q s =
     (let fu = finalUser (memory s) q;
          s1 = s\<lparr>memory := q\<rparr>;
          s2 = logCall (CallCorrectSpelling fu) s1
      in case correctSpelling env fu of
           Inl err \<Rightarrow> (Throw err, s2)
         | Inr corrected \<Rightarrow>
             (let s3 = logCall (CallNormalizeToMeaning corrected) s2
              in case normalizeToMeaning env corrected of
                   Inl err \<Rightarrow> (Throw err, s3)
                 | Inr normalized \<Rightarrow> (Continue normalized, s3)))"

text \<open>
  Lines 182 to 188: the embedding cache. \<open>!vector\<close> holds exactly on a miss: an array,
  also the empty one, is truthy.
\<close>

definition embedCached :: "env \<Rightarrow> jsstring \<Rightarrow> state \<Rightarrow> vector step \<times> state" where
  "embedCached env normalized s =
     (let s1 = logCall (CallCacheGet normalized) s
      in case EMB_CACHE s1 normalized of
           Some vector \<Rightarrow> (Continue vector, s1)
         | None \<Rightarrow>
             (let s2 = logCall (CallEmbedText normalized) s1
              in case embedText env normalized of
                   Inl err \<Rightarrow> (Throw err, s2)
                 | Inr vector \<Rightarrow>
                     (Continue vector,
                      s2\<lparr>EMB_CACHE := (EMB_CACHE s2)(normalized \<mapsto> vector)\<rparr>)))"

text \<open>Lines 190 to 196: the zero-length check and the semantic search.\<close>

definition search :: "env \<Rightarrow> jsstring \<Rightarrow> vector \<Rightarrow> state \<Rightarrow> match list step \<times> state" where
  "search env normalized vector s =
     (if length vector = 0 then (Return (Answer smartFallback (Some NoVector)), s)
      else
        (let s1 = logCall (CallFindTopMatches vector normalized) s
         in case findTopMatches env vector (EMBEDDINGS s) normalized 5 of
              Inl err \<Rightarrow> (Throw err, s1)
            | Inr matches \<Rightarrow> (Continue matches, s1)))"

text \<open>
  Lines 226 to 281: score validation, LLM validation, direct semantic match.
  \<open>MIN_score\<close> is the constant \<open>MIN\<close> of the source. \<open>GAP\<close> is the double that the
  literal \<open>0.06\<close> denotes, which lies below 6/100, and \<open>ambi\<close> compares with it the
  absolute value of the rounded difference \<open>best._score - second._score\<close>. The literals
  \<open>0.11\<close>, \<open>0.55\<close> and \<open>0.08\<close> denote doubles that lie above 11/100, 55/100 and 8/100
  with no double in between, so a double is below (or at least) the literal exactly when it
  is below (or at least) the decimal; these three are kept as the decimals
  (\<open>below_literal_0_11\<close>, \<open>at_least_literal_0_55\<close> and \<open>at_least_literal_0_08\<close> below).
\<close>

definition MIN_score :: real where "MIN_score = 11 / 100"
definition GAP :: real where "GAP = roundToDouble (6 / 100)"
definition TRUST :: real where "TRUST = 55 / 100"

definition low :: "match \<Rightarrow> bool" where
  "low best \<longleftrightarrow> m_score best < MIN_score"

definition ambi :: "match \<Rightarrow> match option \<Rightarrow> bool" where
  "ambi best second \<longleftrightarrow>
     (case second of None \<Rightarrow> False | Some m \<Rightarrow> \<bar>fsub (m_score best) (m_score m)\<bar> < GAP)"

definition scoreValidation ::
  "env \<Rightarrow> jsstring \<Rightarrow> match \<Rightarrow> match option \<Rightarrow> state \<Rightarrow> response \<times> state" where
  "scoreValidation env normalized best second s =
     (if low best \<or> ambi best second then
        (let s1 = logCall (CallLlmMeaningMatch normalized (m_question best)) s
         in case llmMeaningMatch env normalized (m_question best) of
              Some True \<Rightarrow> (Answer (m_answer best) (Some LlmValidated), s1)
            | Some False \<Rightarrow> (Answer smartFallback (Some LlmReject), s1)
            | None \<Rightarrow>
                if \<not> low best \<and> m_score best \<ge> TRUST
                then (Answer (m_answer best) (Some SemanticLlmUnavailable), s1)
                else (Answer smartFallback (Some LlmUnavailable), s1))
      else (Answer (m_answer best) (Some Semantic), s))"

text \<open>
  Lines 197 to 221: \<open>best = matches[0]\<close>, \<open>second = matches[1]\<close> (\<open>undefined\<close> out of
  range), the no-match reply and the one-word multi-match mode.
\<close>

definition bullet :: jsstring where
  "bullet = [0x2022, 0x0020]"

definition multiList :: "match list \<Rightarrow> jsstring" where
  "multiList matches =
     join (ascii ''\<newline>\<newline>'')
       (map (\<lambda>m. bullet @ m_answer m) (filter (\<lambda>m. m_score m \<ge> 8 / 100) matches))"

definition rankDecision ::
  "env \<Rightarrow> jsstring \<Rightarrow> match list \<Rightarrow> state \<Rightarrow> response \<times> state" where
  "rankDecision env normalized matches s =
     (case matches of
        [] \<Rightarrow> (Answer smartFallback (Some NoMatch), s)
      | best # rest \<Rightarrow>
          (let second = (case rest of [] \<Rightarrow> None | m # _ \<Rightarrow> Some m);
               tokenCount = length (split_ws normalized)
           in if tokenCount \<le> 1 \<and> trim (multiList matches) \<noteq> []
              then (Answer (multiList matches) (Some MultiMatch), s)
              else scoreValidation env normalized best second s))"

text \<open>
  The blocks in sequence. \<open>answerFrom\<close> is lines 182 to 281, \<open>pipeline\<close> lines 158 to
  281, \<open>tryBlock\<close> the body of the \<open>try\<close>.
\<close>

definition returning :: "response \<times> state \<Rightarrow> 'a step \<times> state" where
  "returning p = (Return (fst p), snd p)"

definition answerFrom :: "env \<Rightarrow> jsstring \<Rightarrow> state \<Rightarrow> unit step \<times> state" where
  "answerFrom env normalized s =
     andThen (embedCached env normalized s) (\<lambda>vector s1.
     andThen (search env normalized vector s1) (\<lambda>matches s2.
       returning (rankDecision env normalized matches s2)))"

definition pipeline :: "env \<Rightarrow> jsstring \<Rightarrow> state \<Rightarrow> unit step \<times> state" where
  "pipeline env q s = andThen (normalizeStage env q s) (answerFrom env)"

definition tryBlock :: "env \<Rightarrow> request \<Rightarrow> state \<Rightarrow> unit step \<times> state" where
  "tryBlock env req s = andThen (entry env req s) (pipeline env)"

text \<open>
  \<open>handleChat\<close>: the \<open>catch\<close> turns an exception into the fallback tagged \<open>error\<close>.
  The result is the object given to \<open>res.json\<close>; \<open>None\<close> would be a \<open>try\<close> block that
  ends without a \<open>return\<close>, so that nothing is sent.
\<close>

definition handleChat :: "env \<Rightarrow> request \<Rightarrow> state \<Rightarrow> response option \<times> state" where
  "handleChat env req s =
     (case tryBlock env req s of
        (Throw err, s') \<Rightarrow> (Some (Answer smartFallback (Some Error)), s')
      | (Return r, s') \<Rightarrow> (Some r, s')
      | (Continue u, s') \<Rightarrow> (None, s'))"

text \<open>
  \<open>grows P s s'\<close>: the log of \<open>s'\<close> is the log of \<open>s\<close> followed by calls that all
  satisfy \<open>P\<close>.
\<close>

definition grows :: "(call \<Rightarrow> bool) \<Rightarrow> state \<Rightarrow> state \<Rightarrow> bool" where
  "grows P s s' \<longleftrightarrow>
     prefix (calls s) (calls s') \<and> list_all P (drop (length (calls s)) (calls s'))"


section \<open>Example collaborators, requests and states\<close>

text \<open>
  Concrete collaborators on which the theorems below are instantiated.
  \<open>asciiLower\<close> stands for \<open>toLowerCase\<close> on the ASCII replies of the examples. The
  scores of the four candidates are the doubles 0.625, 0.125, 0.59375 and 0.0625.
\<close>

definition asciiLower :: "jsstring \<Rightarrow> jsstring" where
  "asciiLower s = map (\<lambda>c. if 0x41 \<le> c \<and> c \<le> 0x5A then c + 0x20 else c) s"

definition fees :: match where
  "fees = \<lparr>m_question = ascii ''what are the school fees'',
           m_answer = ascii ''The fee is paid per term.'', m_score = 5 / 8\<rparr>"

definition hostel :: match where
  "hostel = \<lparr>m_question = ascii ''what are the hostel fees'',
           m_answer = ascii ''Hostel fees are paid per month.'', m_score = 1 / 8\<rparr>"

definition bus :: match where
  "bus = \<lparr>m_question = ascii ''is there a school bus'',
           m_answer = ascii ''Yes, on three routes.'', m_score = 19 / 32\<rparr>"

definition weak :: match where
  "weak = \<lparr>m_question = ascii ''who is the principal'',
           m_answer = ascii ''The principal is listed on the website.'', m_score = 1 / 16\<rparr>"

definition demoEnv :: env where
  "demoEnv = \<lparr>correctSpelling = Inr, normalizeToMeaning = Inr,
     embedText = (\<lambda>t. Inr [1]),
     answerGeneralQuestion = (\<lambda>p. Inr (Some (ascii '' Yes\<newline>''))),
     findTopMatches = (\<lambda>v es n k. Inr [fees, hostel]),
     aiIntentRouter = (\<lambda>q ps js. Inr \<lparr>intent = ascii ''school'', target = []\<rparr>),
     toLowerCase = asciiLower, embFile = None\<rparr>"

definition startState :: state where
  "startState = \<lparr>memory = [], EMB_CACHE = Map.empty, EMBEDDINGS = [], calls = []\<rparr>"

definition ask :: "jsstring \<Rightarrow> request" where
  "ask q = \<lparr>body = Some \<lparr>question = JString q, panoNames = None, projectNames = None\<rparr>\<rparr>"



text \<open>A router that sends every question to the panorama "lobby".\<close>

definition panoRouter :: env where
  "panoRouter = demoEnv\<lparr>aiIntentRouter :=
      \<lambda>q ps js. Inr \<lparr>intent = ascii ''pano'', target = ascii ''lobby''\<rparr>\<rparr>"

text \<open>The state after a request "school", and an exception.\<close>

definition afterSchool :: state where
  "afterSchool = startState\<lparr>memory := ascii ''school''\<rparr>"

definition boom :: exn where
  "boom = Exn (ascii ''fetch failed'')"

text \<open>A normaliser that returns the empty string, with no embedding for it.\<close>

definition blankNormalizer :: env where
  "blankNormalizer = demoEnv\<lparr>normalizeToMeaning := \<lambda>t. Inr [], embedText := \<lambda>t. Inr []\<rparr>"

text \<open>A matcher that returns three candidates, the last one below 0.08.\<close>

definition threeMatches :: env where
  "threeMatches = demoEnv\<lparr>findTopMatches := \<lambda>v es n k. Inr [fees, hostel, weak]\<rparr>"

text \<open>
  The doubles that the decimals 0.44, 0.62, 0.56, 0.16, 0.1 and 0.11 denote, a candidate
  with a given score, and a matcher that returns a given ranking.
\<close>

definition d0_44 :: real where "d0_44 = roundToDouble (44 / 100)"
definition d0_62 :: real where "d0_62 = roundToDouble (62 / 100)"
definition d0_56 :: real where "d0_56 = roundToDouble (56 / 100)"
definition d0_16 :: real where "d0_16 = roundToDouble (16 / 100)"
definition d0_1 :: real where "d0_1 = roundToDouble (1 / 10)"
definition d0_11 :: real where "d0_11 = roundToDouble (11 / 100)"

definition scored :: "real \<Rightarrow> match" where
  "scored x = \<lparr>m_question = ascii ''what are the fees'', m_answer = ascii ''Ask the office.'',
               m_score = x\<rparr>"

definition ranking :: "match list \<Rightarrow> env" where
  "ranking ms = demoEnv\<lparr>findTopMatches := \<lambda>v es n k. Inr ms\<rparr>"


section \<open>Auxiliary facts\<close>

subsection \<open>Doubles\<close>

lemmas round_defs = roundToDouble_def ulp_def pow2_def roundTiesToEven_def Let_def ilog2.simps

lemma GAP_value: "GAP = 1080863910568919 / 2 ^ 54"
  by (simp add: GAP_def round_defs)

lemma GAP_below: "GAP < 6 / 100"
  by (simp add: GAP_value)

lemma d0_44_value: "d0_44 = 7926335344172073 / 2 ^ 54"
  by (simp add: d0_44_def round_defs)

lemma d0_62_value: "d0_62 = 5584463537939415 / 2 ^ 53"
  by (simp add: d0_62_def round_defs)

lemma d0_56_value: "d0_56 = 1261007895663739 / 2 ^ 51"
  by (simp add: d0_56_def round_defs)

lemma d0_16_value: "d0_16 = 5764607523034235 / 2 ^ 55"
  by (simp add: d0_16_def round_defs)

lemma d0_1_value: "d0_1 = 3602879701896397 / 2 ^ 55"
  by (simp add: d0_1_def round_defs)

lemma d0_11_value: "d0_11 = 7926335344172073 / 2 ^ 56"
  by (simp add: d0_11_def round_defs)

lemma fsub_half_d0_44: "fsub (1 / 2) d0_44 = GAP"
  by (simp add: fsub_def d0_44_value GAP_value round_defs)

lemma fsub_d0_16_d0_1: "fsub d0_16 d0_1 = GAP"
  by (simp add: fsub_def d0_16_value d0_1_value GAP_value round_defs)

lemma fsub_d0_62_d0_56: "fsub d0_62 d0_56 = 540431955284459 / 2 ^ 53"
  by (simp add: fsub_def d0_62_value d0_56_value round_defs)

lemma fsub_fees_hostel: "fsub (5 / 8) (1 / 8) = 1 / 2"
  by (simp add: fsub_def round_defs)

lemma fsub_fees_bus: "fsub (5 / 8) (19 / 32) = 1 / 32"
  by (simp add: fsub_def round_defs)

lemma ilog2_unit: "1 \<le> x \<Longrightarrow> x < 2 \<Longrightarrow> ilog2 x = 0"
  by (subst ilog2.simps) simp

lemma ilog2_small: "0 < x \<Longrightarrow> x < 1 \<Longrightarrow> ilog2 x = ilog2 (2 * x) - 1"
  by (subst ilog2.simps) simp

lemma ilog2_sixteenth: 
  assumes "1 / 16 \<le> x" "x < 1 / 8" shows "ilog2 x = - 4"
proof -
  have "ilog2 x = ilog2 (2 * x) - 1" using assms by (intro ilog2_small) auto
  also have "ilog2 (2 * x) = ilog2 (2 * (2 * x)) - 1" using assms by (intro ilog2_small) auto
  also have "ilog2 (2 * (2 * x)) = ilog2 (2 * (2 * (2 * x))) - 1" using assms by (intro ilog2_small) auto
  also have "ilog2 (2 * (2 * (2 * x))) = ilog2 (2 * (2 * (2 * (2 * x)))) - 1" using assms by (intro ilog2_small) auto
  also have "ilog2 (2 * (2 * (2 * (2 * x)))) = 0" using assms by (intro ilog2_unit) auto
  finally show ?thesis by simp
qed

lemma ilog2_half:
  assumes "1 / 2 \<le> x" "x < 1" shows "ilog2 x = - 1"
proof -
  have "ilog2 x = ilog2 (2 * x) - 1" using assms by (intro ilog2_small) auto
  also have "ilog2 (2 * x) = 0" using assms by (intro ilog2_unit) auto
  finally show ?thesis by simp
qed

lemma double_sixteenth:
  assumes "roundToDouble x = x" "1 / 16 \<le> x" "x < 1 / 8"
  shows "\<exists>n::int. x = of_int n / 2 ^ 56"
proof -
  have "ilog2 \<bar>x\<bar> = - 4" using assms(2,3) by (intro ilog2_sixteenth) auto
  then have "ulp x = 1 / 2 ^ 56" by (simp add: ulp_def pow2_def)
  with assms(1,2) have "x = of_int (roundTiesToEven (x / (1 / 2 ^ 56))) * (1 / 2 ^ 56)"
    by (simp add: roundToDouble_def split: if_splits)
  then show ?thesis by (metis times_divide_eq_right mult.right_neutral)
qed

lemma double_half:
  assumes "roundToDouble x = x" "1 / 2 \<le> x" "x < 1"
  shows "\<exists>n::int. x = of_int n / 2 ^ 53"
proof -
  have "ilog2 \<bar>x\<bar> = - 1" using assms(2,3) by (intro ilog2_half) auto
  then have "ulp x = 1 / 2 ^ 53" by (simp add: ulp_def pow2_def)
  with assms(1,2) have "x = of_int (roundTiesToEven (x / (1 / 2 ^ 53))) * (1 / 2 ^ 53)"
    by (simp add: roundToDouble_def split: if_splits)
  then show ?thesis by (metis times_divide_eq_right mult.right_neutral)
qed

lemma below_literal_0_11:
  assumes "roundToDouble x = x"
  shows "x < roundToDouble (11 / 100) \<longleftrightarrow> x < 11 / 100"
proof -
  have v: "roundToDouble (11 / 100) = 7926335344172073 / 2 ^ 56"
    by (simp add: round_defs)
  have False if a: "11 / 100 \<le> x" and b: "x < 7926335344172073 / 2 ^ 56"
  proof -
    from assms a b obtain n :: int where n: "x = of_int n / 2 ^ 56"
      using double_sixteenth [of x] by auto
    from a n have "(11::real) * 2 ^ 56 \<le> 100 * of_int n" by (simp add: field_simps)
    then have "(11::int) * 2 ^ 56 \<le> 100 * n" by (simp flip: of_int_le_iff)
    then have "7926335344172073 \<le> n" by simp
    moreover from b n have "of_int n < (7926335344172073::real)" by (simp add: field_simps)
    then have "n < 7926335344172073" by (simp flip: of_int_less_iff)
    ultimately show False by simp
  qed
  then show ?thesis unfolding v by (auto simp: not_le [symmetric])
qed

lemma at_least_literal_0_55:
  assumes "roundToDouble x = x"
  shows "roundToDouble (55 / 100) \<le> x \<longleftrightarrow> 55 / 100 \<le> x"
proof -
  have v: "roundToDouble (55 / 100) = 4953959590107546 / 2 ^ 53"
    by (simp add: round_defs)
  have False if a: "55 / 100 \<le> x" and b: "x < 4953959590107546 / 2 ^ 53"
  proof -
    from assms a b obtain n :: int where n: "x = of_int n / 2 ^ 53"
      using double_half [of x] by auto
    from a n have "(55::real) * 2 ^ 53 \<le> 100 * of_int n" by (simp add: field_simps)
    then have "(55::int) * 2 ^ 53 \<le> 100 * n" by (simp flip: of_int_le_iff)
    then have "4953959590107546 \<le> n" by simp
    moreover from b n have "of_int n < (4953959590107546::real)" by (simp add: field_simps)
    then have "n < 4953959590107546" by (simp flip: of_int_less_iff)
    ultimately show False by simp
  qed
  then show ?thesis unfolding v by (auto simp: not_le [symmetric])
qed

lemma at_least_literal_0_08:
  assumes "roundToDouble x = x"
  shows "roundToDouble (8 / 100) \<le> x \<longleftrightarrow> 8 / 100 \<le> x"
proof -
  have v: "roundToDouble (8 / 100) = 5764607523034235 / 2 ^ 56"
    by (simp add: round_defs)
  have False if a: "8 / 100 \<le> x" and b: "x < 5764607523034235 / 2 ^ 56"
  proof -
    from assms a b obtain n :: int where n: "x = of_int n / 2 ^ 56"
      using double_sixteenth [of x] by auto
    from a n have "(8::real) * 2 ^ 56 \<le> 100 * of_int n" by (simp add: field_simps)
    then have "(8::int) * 2 ^ 56 \<le> 100 * n" by (simp flip: of_int_le_iff)
    then have "5764607523034235 \<le> n" by simp
    moreover from b n have "of_int n < (5764607523034235::real)" by (simp add: field_simps)
    then have "n < 5764607523034235" by (simp flip: of_int_less_iff)
    ultimately show False by simp
  qed
  then show ?thesis unfolding v by (auto simp: not_le [symmetric])
qed

subsection \<open>Unfolding sets for the examples\<close>

lemmas example_defs = asciiLower_def fees_def hostel_def bus_def weak_def demoEnv_def startState_def ask_def

lemmas string_defs = ascii_def trim_def isWhiteSpace_def


lemmas eval_defs = entry_def normalizeStage_def embedCached_def search_def Let_def logCall_def
  loadEmbeddingsOnce_def finalUser_def example_defs string_defs

lemmas run_defs = handleChat_def tryBlock_def pipeline_def answerFrom_def returning_def
  rankDecision_def scoreValidation_def low_def ambi_def MIN_score_def GAP_value TRUST_def
  fsub_fees_hostel fsub_fees_bus
  split_ws_def multiList_def bullet_def eval_defs

subsection \<open>Strings\<close>

lemma yes_not_no: "ascii ''yes'' \<noteq> ascii ''no''"
  by (simp add: ascii_def)

lemma includes_site_not_short:
  assumes "includesStr ans (ascii ''montforticse.in'')"
  shows "ans \<noteq> ascii ''yes'' \<and> ans \<noteq> ascii ''no''"
proof -
  from assms have "length (ascii ''montforticse.in'') \<le> length ans"
    unfolding includesStr_def by (rule sublist_length_le)
  then show ?thesis by (auto simp: ascii_def)
qed

lemma starts_disclaimer_not_short:
  assumes "startsWith ans (ascii ''i don'' @ [0x2019] @ ascii ''t have that information'')"
  shows "ans \<noteq> ascii ''yes'' \<and> ans \<noteq> ascii ''no''"
proof -
  from assms have "length (ascii ''i don'' @ [0x2019] @ ascii ''t have that information'') \<le> length ans"
    unfolding startsWith_def by (rule prefix_length_le)
  then show ?thesis by (auto simp: ascii_def)
qed

lemma trim_all_white:
  assumes "\<forall>c\<in>set raw. isWhiteSpace c"
  shows "trim raw = []"
proof -
  from assms have d: "dropWhile isWhiteSpace raw = []"
    by (induction raw) simp_all
  show ?thesis unfolding trim_def d by simp
qed

lemma bullet_not_white: "\<not> isWhiteSpace 0x2022"
  by (simp add: isWhiteSpace_def)

lemma trim_nonempty: "\<not> isWhiteSpace c \<Longrightarrow> trim (c # cs) \<noteq> []"
  by (auto simp: trim_def dropWhile_eq_Nil_conv)

lemma join_Cons: "join sep (x # xs) = x @ (if xs = [] then [] else sep @ join sep xs)"
  by (cases xs) simp_all

lemma multiList_starts:
  assumes "\<exists>m\<in>set matches. m_score m \<ge> 8 / 100"
  shows "\<exists>rest. multiList matches = 0x2022 # rest"
proof -
  from assms have "filter (\<lambda>m. m_score m \<ge> 8 / 100) matches \<noteq> []"
    by (simp add: filter_empty_conv)
  then obtain m ms where "filter (\<lambda>m. m_score m \<ge> 8 / 100) matches = m # ms"
    by (cases "filter (\<lambda>m. m_score m \<ge> 8 / 100) matches") auto
  then show ?thesis
    by (simp add: multiList_def join_Cons bullet_def)
qed

lemma sorted_scores_filter:
  assumes "sorted_wrt (\<ge>) (map m_score matches)"
  shows "sorted_wrt (\<ge>) (map m_score (filter P matches))"
  using assms by (simp add: sorted_wrt_map sorted_wrt_filter)

subsection \<open>Sequencing of blocks\<close>

lemma andThen_simps [simp]:
  "andThen (Throw e, s) f = (Throw e, s)"
  "andThen (Return r, s) f = (Return r, s)"
  "andThen (Continue x, s) f = f x s"
  by (simp_all add: andThen_def)

lemma andThen_snd:
  assumes "\<And>e s'. m = (Throw e, s') \<Longrightarrow> P s'"
    and "\<And>r s'. m = (Return r, s') \<Longrightarrow> P s'"
    and "\<And>x s'. m = (Continue x, s') \<Longrightarrow> P (snd (f x s'))"
  shows "P (snd (andThen m f))"
proof (cases m)
  case (Pair st s')
  with assms show ?thesis by (cases st) auto
qed

lemma snd_handleChat: "snd (handleChat env req s) = snd (tryBlock env req s)"
  by (simp add: handleChat_def split: prod.splits step.splits)

lemma tryBlock_entry:
  "entry env req s = (Continue q, s1) \<Longrightarrow> tryBlock env req s = pipeline env q s1"
  by (simp add: tryBlock_def)

lemma pipeline_normalized:
  "normalizeStage env q s1 = (Continue normalized, s2) \<Longrightarrow>
   pipeline env q s1 = answerFrom env normalized s2"
  by (simp add: pipeline_def)

lemma answerFrom_ranked:
  "embedCached env normalized s2 = (Continue vector, s3) \<Longrightarrow>
   search env normalized vector s3 = (Continue matches, s4) \<Longrightarrow>
   answerFrom env normalized s2 = returning (rankDecision env normalized matches s4)"
  by (simp add: answerFrom_def)

lemma handleChat_ranked:
  assumes "entry env req s = (Continue q, s1)"
    and "normalizeStage env q s1 = (Continue normalized, s2)"
    and "embedCached env normalized s2 = (Continue vector, s3)"
    and "search env normalized vector s3 = (Continue matches, s4)"
  shows "handleChat env req s =
           (Some (fst (rankDecision env normalized matches s4)),
            snd (rankDecision env normalized matches s4))"
  using assms
  by (simp add: handleChat_def tryBlock_entry pipeline_normalized answerFrom_ranked returning_def)

lemma handleChat_entry_Return:
  "entry env req s = (Return r, s1) \<Longrightarrow> handleChat env req s = (Some r, s1)"
  by (simp add: handleChat_def tryBlock_def)

lemma handleChat_entry_Throw:
  "entry env req s = (Throw e, s1) \<Longrightarrow>
   handleChat env req s = (Some (Answer smartFallback (Some Error)), s1)"
  by (simp add: handleChat_def tryBlock_def)

subsection \<open>What each block does to the memory\<close>

lemma memory_logCall [simp]: "memory (logCall c s) = memory s"
  by (simp add: logCall_def)

lemma memory_loadEmbeddingsOnce [simp]: "memory (loadEmbeddingsOnce env s) = memory s"
  by (simp add: loadEmbeddingsOnce_def split: option.splits sum.splits)

lemma memory_entry: "memory (snd (entry env req s)) = memory s"
  by (simp add: entry_def Let_def split: jsvalue.splits sum.splits)

lemma memory_normalizeStage: "memory (snd (normalizeStage env q s)) = q"
  by (simp add: normalizeStage_def Let_def split: sum.splits)

lemma memory_embedCached: "memory (snd (embedCached env normalized s)) = memory s"
  by (simp add: embedCached_def Let_def logCall_def split: option.splits sum.splits)

lemma memory_search: "memory (snd (search env normalized vector s)) = memory s"
  by (simp add: search_def Let_def split: sum.splits)

lemma memory_scoreValidation:
  "memory (snd (scoreValidation env normalized best second s)) = memory s"
  by (simp add: scoreValidation_def Let_def split: option.splits bool.splits)

lemma memory_rankDecision: "memory (snd (rankDecision env normalized matches s)) = memory s"
  by (simp add: rankDecision_def Let_def memory_scoreValidation split: list.splits)

lemma memory_answerFrom: "memory (snd (answerFrom env normalized s)) = memory s"
  unfolding answerFrom_def
proof (rule andThen_snd)
  fix vector s1
  assume e: "embedCached env normalized s = (Continue vector, s1)"
  have m1: "memory s1 = memory s"
    using memory_embedCached [of env normalized s] e by simp
  show "memory (snd (andThen (search env normalized vector s1) (\<lambda>matches s2.
          returning (rankDecision env normalized matches s2)))) = memory s"
    by (rule andThen_snd)
       (use memory_search [of env normalized vector s1] m1 in
         \<open>auto simp: returning_def memory_rankDecision\<close>)
qed (use memory_embedCached [of env normalized s] in auto)

lemma memory_pipeline: "memory (snd (pipeline env q s)) = q"
  unfolding pipeline_def
  by (rule andThen_snd)
     (use memory_normalizeStage [of env q s] in \<open>auto simp: memory_answerFrom\<close>)

subsection \<open>What each block adds to the log\<close>

lemma grows_iff: "grows P s s' \<longleftrightarrow> (\<exists>cs. calls s' = calls s @ cs \<and> list_all P cs)"
  by (auto simp: grows_def prefix_def)

lemma grows_refl: "grows P s s"
  by (simp add: grows_iff)

lemma grows_trans: "grows P s s' \<Longrightarrow> grows P s' s'' \<Longrightarrow> grows P s s''"
  by (auto simp: grows_iff)

lemma calls_loadEmbeddingsOnce [simp]: "calls (loadEmbeddingsOnce env s) = calls s"
  by (simp add: loadEmbeddingsOnce_def split: option.splits sum.splits)

lemma grows_entry:
  assumes "\<And>q. P (CallRouter q)"
  shows "grows P s (snd (entry env req s))"
  using assms
  by (auto simp: entry_def Let_def grows_iff logCall_def split: jsvalue.splits sum.splits)

lemma grows_normalizeStage:
  assumes "\<And>t. P (CallCorrectSpelling t)" and "\<And>t. P (CallNormalizeToMeaning t)"
  shows "grows P s (snd (normalizeStage env q s))"
  using assms
  by (auto simp: normalizeStage_def Let_def grows_iff logCall_def split: sum.splits)

lemma grows_embedCached:
  assumes "P (CallCacheGet normalized)" and "P (CallEmbedText normalized)"
  shows "grows P s (snd (embedCached env normalized s))"
  using assms
  by (auto simp: embedCached_def Let_def grows_iff logCall_def split: option.splits sum.splits)

lemma grows_search:
  assumes "vector \<noteq> [] \<Longrightarrow> P (CallFindTopMatches vector normalized)"
  shows "grows P s (snd (search env normalized vector s))"
  using assms
  by (auto simp: search_def Let_def grows_iff logCall_def split: sum.splits)

lemma grows_scoreValidation:
  assumes "\<And>c. P (CallLlmMeaningMatch normalized c)"
  shows "grows P s (snd (scoreValidation env normalized best second s))"
  using assms
  by (auto simp: scoreValidation_def Let_def grows_iff logCall_def
           split: option.splits bool.splits)

lemma grows_rankDecision:
  assumes "\<And>c. P (CallLlmMeaningMatch normalized c)"
  shows "grows P s (snd (rankDecision env normalized matches s))"
  using grows_scoreValidation [of P normalized, OF assms]
  by (auto simp: rankDecision_def Let_def grows_refl split: list.splits)

lemma grows_andThen:
  assumes "grows P s (snd m)"
    and "\<And>x s'. m = (Continue x, s') \<Longrightarrow> grows P s' (snd (f x s'))"
  shows "grows P s (snd (andThen m f))"
proof (rule andThen_snd)
  fix x s'
  assume m: "m = (Continue x, s')"
  with assms(1) have "grows P s s'" by simp
  then show "grows P s (snd (f x s'))"
    using assms(2) [OF m] by (rule grows_trans)
qed (use assms(1) in auto)

lemma grows_answerFrom:
  assumes "P (CallCacheGet normalized)" and "P (CallEmbedText normalized)"
    and "\<And>v. v \<noteq> [] \<Longrightarrow> P (CallFindTopMatches v normalized)"
    and "\<And>c. P (CallLlmMeaningMatch normalized c)"
  shows "grows P s (snd (answerFrom env normalized s))"
  unfolding answerFrom_def
proof (rule grows_andThen)
  show "grows P s (snd (embedCached env normalized s))"
    using assms(1,2) by (rule grows_embedCached)
next
  fix vector s1
  show "grows P s1 (snd (andThen (search env normalized vector s1) (\<lambda>matches s2.
          returning (rankDecision env normalized matches s2))))"
  proof (rule grows_andThen)
    show "grows P s1 (snd (search env normalized vector s1))"
      using assms(3) by (rule grows_search)
  next
    fix matches s2
    show "grows P s2 (snd (returning (rankDecision env normalized matches s2)))"
      using grows_rankDecision [of P normalized, OF assms(4)] by (simp add: returning_def)
  qed
qed

lemma grows_pipeline:
  assumes "\<And>t. P (CallCorrectSpelling t)" and "\<And>t. P (CallNormalizeToMeaning t)"
    and "\<And>t. P (CallCacheGet t)" and "\<And>t. P (CallEmbedText t)"
    and "\<And>v t. v \<noteq> [] \<Longrightarrow> P (CallFindTopMatches v t)"
    and "\<And>t c. P (CallLlmMeaningMatch t c)"
  shows "grows P s (snd (pipeline env q s))"
  unfolding pipeline_def
  by (rule grows_andThen)
     (use assms in \<open>auto intro: grows_normalizeStage grows_answerFrom\<close>)

lemma grows_handleChat:
  assumes "\<And>q. P (CallRouter q)"
    and "\<And>t. P (CallCorrectSpelling t)" and "\<And>t. P (CallNormalizeToMeaning t)"
    and "\<And>t. P (CallCacheGet t)" and "\<And>t. P (CallEmbedText t)"
    and "\<And>v t. v \<noteq> [] \<Longrightarrow> P (CallFindTopMatches v t)"
    and "\<And>t c. P (CallLlmMeaningMatch t c)"
  shows "grows P s (snd (handleChat env req s))"
  unfolding snd_handleChat tryBlock_def
  by (rule grows_andThen)
     (use assms in \<open>auto intro: grows_entry grows_pipeline\<close>)

lemma calls_normalizeStage:
  "calls (snd (normalizeStage env q s)) =
     calls s @ CallCorrectSpelling (finalUser (memory s) q) #
       (case correctSpelling env (finalUser (memory s) q) of
          Inl e \<Rightarrow> [] | Inr corrected \<Rightarrow> [CallNormalizeToMeaning corrected])"
  by (simp add: normalizeStage_def Let_def logCall_def split: sum.splits)

lemma calls_embedCached:
  "\<exists>cs. calls (snd (embedCached env normalized s)) = calls s @ CallCacheGet normalized # cs
        \<and> (EMB_CACHE s normalized = None \<longrightarrow> cs = [CallEmbedText normalized])"
  by (simp add: embedCached_def Let_def logCall_def split: option.splits sum.splits)

lemma calls_answerFrom:
  "\<exists>cs. calls (snd (answerFrom env normalized s)) = calls s @ CallCacheGet normalized # cs
        \<and> (EMB_CACHE s normalized = None \<longrightarrow> CallEmbedText normalized \<in> set cs)"
proof -
  obtain st s1 where e: "embedCached env normalized s = (st, s1)"
    by (cases "embedCached env normalized s")
  from calls_embedCached [of env normalized s] e
  obtain cs where cs: "calls s1 = calls s @ CallCacheGet normalized # cs"
      "EMB_CACHE s normalized = None \<longrightarrow> cs = [CallEmbedText normalized]"
    by auto
  have "grows (\<lambda>c. True) s1 (snd (answerFrom env normalized s))"
    unfolding answerFrom_def e
  proof (cases st)
    case (Continue vector)
    have "grows (\<lambda>c. True) s1 (snd (andThen (search env normalized vector s1) (\<lambda>matches s2.
            returning (rankDecision env normalized matches s2))))"
      by (rule grows_andThen)
         (auto simp: returning_def intro: grows_search grows_rankDecision)
    with Continue show "grows (\<lambda>c. True) s1 (snd (andThen (st, s1) (\<lambda>vector s1.
        andThen (search env normalized vector s1) (\<lambda>matches s2.
          returning (rankDecision env normalized matches s2)))))"
      by simp
  qed (simp_all add: grows_refl)
  then obtain cs' where "calls (snd (answerFrom env normalized s)) = calls s1 @ cs'"
    by (auto simp: grows_iff)
  with cs show ?thesis by auto
qed

lemma calls_pipeline:
  "\<exists>cs. calls (snd (pipeline env q s)) =
          calls s @ CallCorrectSpelling (finalUser (memory s) q) # cs
     \<and> (\<forall>corrected. correctSpelling env (finalUser (memory s) q) = Inr corrected \<longrightarrow>
          (\<exists>cs'. cs = CallNormalizeToMeaning corrected # cs'
             \<and> (\<forall>normalized. normalizeToMeaning env corrected = Inr normalized \<longrightarrow>
                  (\<exists>cs''. cs' = CallCacheGet normalized # cs''))))"
proof (cases "correctSpelling env (finalUser (memory s) q)")
  case (Inl e)
  then show ?thesis
    by (simp add: pipeline_def normalizeStage_def Let_def logCall_def)
next
  case (Inr corrected)
  show ?thesis
  proof (cases "normalizeToMeaning env corrected")
    case (Inl e)
    with Inr show ?thesis
      by (simp add: pipeline_def normalizeStage_def Let_def logCall_def)
  next
    case norm: (Inr normalized)
    let ?s2 = "snd (normalizeStage env q s)"
    have n: "normalizeStage env q s = (Continue normalized, ?s2)"
      using Inr norm by (simp add: normalizeStage_def Let_def)
    have c2: "calls ?s2 = calls s @ [CallCorrectSpelling (finalUser (memory s) q),
                CallNormalizeToMeaning corrected]"
      using Inr by (simp add: calls_normalizeStage)
    from calls_answerFrom [of env normalized ?s2]
    obtain cs where "calls (snd (answerFrom env normalized ?s2)) =
        calls ?s2 @ CallCacheGet normalized # cs"
      by blast
    with c2 show ?thesis
      using Inr norm by (simp add: pipeline_normalized [OF n])
  qed
qed

subsection \<open>How each block ends\<close>

lemma entry_Continue:
  assumes "entry env req s = (Continue q, s1)"
  shows "\<exists>b raw ai. body req = Some b \<and> question b = JString raw \<and> raw \<noteq> [] \<and> q = trim raw
           \<and> aiIntentRouter env q (case panoNames b of None \<Rightarrow> [] | Some ns \<Rightarrow> ns)
                 (case projectNames b of None \<Rightarrow> [] | Some ns \<Rightarrow> ns) = Inr ai
           \<and> intent ai \<noteq> ascii ''pano'' \<and> intent ai \<noteq> ascii ''project''
           \<and> s1 = logCall (CallRouter q) (loadEmbeddingsOnce env s)"
  using assms
  by (auto simp: entry_def Let_def split: option.splits jsvalue.splits sum.splits if_splits)

lemma entry_Return:
  assumes "entry env req s = (Return r, s1)"
  shows "r = Answer (ascii ''question is required'') None
         \<or> (\<exists>t. r = Intent (ascii ''pano'') t) \<or> (\<exists>t. r = Intent (ascii ''project'') t)"
  using assms
  by (auto simp: entry_def Let_def split: option.splits jsvalue.splits sum.splits if_splits)

lemma entry_reached:
  assumes "body req = Some b" and "question b = JString raw" and "raw \<noteq> []"
    and "aiIntentRouter env (trim raw) (case panoNames b of None \<Rightarrow> [] | Some ns \<Rightarrow> ns)
           (case projectNames b of None \<Rightarrow> [] | Some ns \<Rightarrow> ns) = Inr ai"
    and "intent ai \<noteq> ascii ''pano''" and "intent ai \<noteq> ascii ''project''"
  shows "entry env req s = (Continue (trim raw), logCall (CallRouter (trim raw)) (loadEmbeddingsOnce env s))"
  using assms by (simp add: entry_def Let_def)

lemma entry_valid_not_required:
  assumes "body req = Some b" and "question b = JString raw" and "raw \<noteq> []"
  shows "entry env req s \<noteq> (Return (Answer (ascii ''question is required'') None), s1)"
  using assms by (simp add: entry_def Let_def split: sum.splits)

lemma scoreValidation_reply:
  "\<exists>a v. fst (scoreValidation env normalized best second s) = Answer a (Some v)"
  by (simp add: scoreValidation_def Let_def split: option.splits bool.splits)

lemma scoreValidation_direct:
  assumes "\<not> low best" and "\<not> ambi best second"
  shows "scoreValidation env normalized best second s = (Answer (m_answer best) (Some Semantic), s)"
  using assms by (simp add: scoreValidation_def)

lemma scoreValidation_escalated:
  assumes "low best \<or> ambi best second"
  shows "snd (scoreValidation env normalized best second s)
           = logCall (CallLlmMeaningMatch normalized (m_question best)) s"
  using assms by (auto simp: scoreValidation_def Let_def split: option.splits bool.splits)

lemma rankDecision_reply:
  "\<exists>a v. fst (rankDecision env normalized matches s) = Answer a (Some v)"
  using scoreValidation_reply
  by (simp add: rankDecision_def Let_def split: list.splits)

lemma answerFrom_reply:
  assumes "answerFrom env normalized s = (Return r, s')"
  shows "\<exists>a v. r = Answer a (Some v)"
proof -
  have "fst (answerFrom env normalized s) = Return r" using assms by simp
  then show ?thesis
    using rankDecision_reply
    by (auto simp: answerFrom_def andThen_def returning_def search_def embedCached_def Let_def
             split: prod.splits step.splits sum.splits option.splits if_splits)
qed

lemma normalizeStage_not_Return: "fst (normalizeStage env q s) \<noteq> Return r"
  by (simp add: normalizeStage_def Let_def split: sum.splits)

lemma pipeline_reply:
  assumes "pipeline env q s = (Return r, s')"
  shows "\<exists>a v. r = Answer a (Some v)"
proof (cases "normalizeStage env q s")
  case (Pair st s2)
  then show ?thesis
    using assms normalizeStage_not_Return [of env q s r] answerFrom_reply
    by (cases st) (auto simp: pipeline_def)
qed

lemma tryBlock_responds: "fst (tryBlock env req s) \<noteq> Continue u"
proof -
  have a: "fst (answerFrom env normalized s') \<noteq> Continue u" for normalized s'
    by (auto simp: answerFrom_def andThen_def returning_def search_def Let_def
             split: prod.splits step.splits sum.splits)
  have p: "fst (pipeline env q s') \<noteq> Continue u" for q s'
    using a by (auto simp: pipeline_def andThen_def split: prod.splits step.splits)
  show ?thesis
    using p by (auto simp: tryBlock_def andThen_def split: prod.splits step.splits)
qed

lemma handleChat_reply:
  "\<exists>r. fst (handleChat env req s) = Some r
      \<and> (r = Answer (ascii ''question is required'') None
         \<or> (\<exists>t. r = Intent (ascii ''pano'') t) \<or> (\<exists>t. r = Intent (ascii ''project'') t)
         \<or> (\<exists>a v. r = Answer a (Some v)))"
proof (cases "entry env req s")
  case (Pair st s1)
  show ?thesis
  proof (cases st)
    case (Throw e)
    with Pair show ?thesis by (simp add: handleChat_entry_Throw)
  next
    case (Return r)
    with Pair entry_Return [of env req s r s1] show ?thesis
      by (auto simp: handleChat_entry_Return)
  next
    case (Continue q)
    with Pair have t: "tryBlock env req s = pipeline env q s1"
      by (simp add: tryBlock_entry)
    obtain st' s' where p: "pipeline env q s1 = (st', s')"
      by (cases "pipeline env q s1")
    show ?thesis
    proof (cases st')
      case (Throw e)
      with p t show ?thesis by (simp add: handleChat_def)
    next
      case (Return r)
      with p t pipeline_reply [of env q s1 r s'] show ?thesis
        by (auto simp: handleChat_def)
    next
      case (Continue u)
      with p t tryBlock_responds [of env req s u] show ?thesis by simp
    qed
  qed
qed


section \<open>The confidence arbiter\<close>

text \<open>
  Claim C1. Take a request that reaches the ranking with a best candidate, \<open>matches\<close>
  being \<open>best # rest\<close>, and that the multi-match mode does not answer. \<open>low\<close> holds
  exactly when the best score is below 0.11, and \<open>ambi\<close>, on the second candidate that
  the controller reads as \<open>matches[1]\<close>, exactly when \<open>rest\<close> has a head \<open>second\<close> and
  the absolute value of the difference of the two scores, as the double subtraction
  computes it, is below the double 0.06. The request is answered with the best candidate's
  answer tagged \<open>semantic\<close>, in the state that the search left (so with no call of
  \<open>llmMeaningMatch\<close>), exactly when neither holds; exactly when one of them holds, the
  next call in the log is that of \<open>llmMeaningMatch\<close>. For a score that is a double, being
  below 0.11 is being below the double that the literal denotes. A best score that is
  exactly that double is not low, and a computed gap of exactly the double 0.06 is not
  ambiguous.
\<close>

theorem arbiter_thresholds:
  assumes "entry env req s = (Continue q, s1)"
    and "normalizeStage env q s1 = (Continue normalized, s2)"
    and "embedCached env normalized s2 = (Continue vector, s3)"
    and "search env normalized vector s3 = (Continue (best # rest), s4)"
    and "\<not> (length (split_ws normalized) \<le> 1 \<and> trim (multiList (best # rest)) \<noteq> [])"
  shows "(low best \<longleftrightarrow> m_score best < 11 / 100)
     \<and> (ambi best (case rest of [] \<Rightarrow> None | m # ms \<Rightarrow> Some m) \<longleftrightarrow>
          (\<exists>second more. rest = second # more
             \<and> \<bar>roundToDouble (m_score best - m_score second)\<bar> < roundToDouble (6 / 100)))
     \<and> (handleChat env req s = (Some (Answer (m_answer best) (Some Semantic)), s4) \<longleftrightarrow>
          \<not> m_score best < 11 / 100
          \<and> \<not> (\<exists>second more. rest = second # more
                 \<and> \<bar>roundToDouble (m_score best - m_score second)\<bar> < roundToDouble (6 / 100)))
     \<and> (calls (snd (handleChat env req s))
            = calls s4 @ [CallLlmMeaningMatch normalized (m_question best)] \<longleftrightarrow>
          m_score best < 11 / 100
          \<or> (\<exists>second more. rest = second # more
                 \<and> \<bar>roundToDouble (m_score best - m_score second)\<bar> < roundToDouble (6 / 100)))
     \<and> (roundToDouble (m_score best) = m_score best \<longrightarrow>
          (low best \<longleftrightarrow> m_score best < roundToDouble (11 / 100)))
     \<and> (m_score best = roundToDouble (11 / 100) \<longrightarrow> \<not> low best)
     \<and> (\<forall>second more. rest = second # more
            \<and> \<bar>roundToDouble (m_score best - m_score second)\<bar> = roundToDouble (6 / 100) \<longrightarrow>
          \<not> ambi best (Some second))"
proof -
  let ?second = "case rest of [] \<Rightarrow> None | m # ms \<Rightarrow> Some m"
  let ?close = "\<exists>second more. rest = second # more
             \<and> \<bar>roundToDouble (m_score best - m_score second)\<bar> < roundToDouble (6 / 100)"
  let ?c = "CallLlmMeaningMatch normalized (m_question best)"
  have l: "low best \<longleftrightarrow> m_score best < 11 / 100"
    by (simp add: low_def MIN_score_def)
  have a: "ambi best ?second \<longleftrightarrow> ?close"
    by (cases rest) (simp_all add: ambi_def fsub_def GAP_def)
  have r: "rankDecision env normalized (best # rest) s4
             = scoreValidation env normalized best ?second s4"
    using assms(5) by (auto simp: rankDecision_def Let_def)
  have h: "handleChat env req s =
             (Some (fst (scoreValidation env normalized best ?second s4)),
              snd (scoreValidation env normalized best ?second s4))"
    using handleChat_ranked [OF assms(1-4)] r by simp
  have n: "logCall ?c s4 \<noteq> s4"
  proof
    assume "logCall ?c s4 = s4"
    then have "calls (logCall ?c s4) = calls s4" by simp
    then show False by (simp add: logCall_def)
  qed
  have semantic: "handleChat env req s = (Some (Answer (m_answer best) (Some Semantic)), s4)
                    \<longleftrightarrow> \<not> m_score best < 11 / 100 \<and> \<not> ?close"
  proof (cases "low best \<or> ambi best ?second")
    case True
    from scoreValidation_escalated [OF True, of env normalized s4] n True show ?thesis
      unfolding h l a by auto
  next
    case False
    then have "scoreValidation env normalized best ?second s4
                 = (Answer (m_answer best) (Some Semantic), s4)"
      by (intro scoreValidation_direct) auto
    with False show ?thesis unfolding h l a by auto
  qed
  have escalated: "calls (snd (handleChat env req s)) = calls s4 @ [?c]
                    \<longleftrightarrow> m_score best < 11 / 100 \<or> ?close"
  proof (cases "low best \<or> ambi best ?second")
    case True
    from scoreValidation_escalated [OF True, of env normalized s4] True show ?thesis
      unfolding h l a by (auto simp: logCall_def)
  next
    case False
    then have "scoreValidation env normalized best ?second s4
                 = (Answer (m_answer best) (Some Semantic), s4)"
      by (intro scoreValidation_direct) auto
    with False show ?thesis unfolding h l a by auto
  qed
  have d: "roundToDouble (m_score best) = m_score best \<longrightarrow>
             (low best \<longleftrightarrow> m_score best < roundToDouble (11 / 100))"
    using below_literal_0_11 [of "m_score best"] l by simp
  have b1: "m_score best = roundToDouble (11 / 100) \<longrightarrow> \<not> low best"
    unfolding l by (simp add: round_defs)
  have b2: "\<forall>second more. rest = second # more
            \<and> \<bar>roundToDouble (m_score best - m_score second)\<bar> = roundToDouble (6 / 100) \<longrightarrow>
          \<not> ambi best (Some second)"
    by (simp add: ambi_def fsub_def GAP_def)
  from l a semantic escalated d b1 b2 show ?thesis by blast
qed

text \<open>
  The doubles 0.5 and 0.44, and 0.16 and 0.1: the computed gap is exactly the double 0.06,
  the pair is not ambiguous and the answer is direct. The doubles 0.62 and 0.56: the
  computed gap is 0.05999999999999994, the pair is ambiguous and \<open>llmMeaningMatch\<close> is
  called. A single candidate with the double 0.11 is answered directly, one with 0.0625
  is low.
\<close>

theorem arbiter_thresholds_witness:
  "handleChat (ranking [scored (1 / 2), scored d0_44]) (ask (ascii ''school fees'')) startState
     = (Some (Answer (ascii ''Ask the office.'') (Some Semantic)),
        \<lparr>memory = ascii ''school fees'', EMB_CACHE = [ascii ''school fees'' \<mapsto> [1]],
         EMBEDDINGS = [],
         calls = [CallRouter (ascii ''school fees''), CallCorrectSpelling (ascii ''school fees''),
                  CallNormalizeToMeaning (ascii ''school fees''),
                  CallCacheGet (ascii ''school fees''), CallEmbedText (ascii ''school fees''),
                  CallFindTopMatches [1] (ascii ''school fees'')]\<rparr>)
   \<and> calls (snd (handleChat (ranking [scored d0_62, scored d0_56]) (ask (ascii ''school fees''))
               startState))
     = [CallRouter (ascii ''school fees''), CallCorrectSpelling (ascii ''school fees''),
        CallNormalizeToMeaning (ascii ''school fees''),
        CallCacheGet (ascii ''school fees''), CallEmbedText (ascii ''school fees''),
        CallFindTopMatches [1] (ascii ''school fees''),
        CallLlmMeaningMatch (ascii ''school fees'') (ascii ''what are the fees'')]
   \<and> fst (handleChat (ranking [scored d0_16, scored d0_1]) (ask (ascii ''school fees''))
            startState)
     = Some (Answer (ascii ''Ask the office.'') (Some Semantic))
   \<and> fst (handleChat (ranking [scored d0_11]) (ask (ascii ''school fees'')) startState)
     = Some (Answer (ascii ''Ask the office.'') (Some Semantic))
   \<and> calls (snd (handleChat (ranking [scored (1 / 16)]) (ask (ascii ''school fees''))
               startState))
     = [CallRouter (ascii ''school fees''), CallCorrectSpelling (ascii ''school fees''),
        CallNormalizeToMeaning (ascii ''school fees''),
        CallCacheGet (ascii ''school fees''), CallEmbedText (ascii ''school fees''),
        CallFindTopMatches [1] (ascii ''school fees''),
        CallLlmMeaningMatch (ascii ''school fees'') (ascii ''what are the fees'')]
   \<and> \<not> low (scored d0_11)
   \<and> \<not> ambi (scored (1 / 2)) (Some (scored d0_44))
   \<and> ambi (scored d0_62) (Some (scored d0_56))"
proof -
  let ?q = "ascii ''school fees''"
  let ?s1 = "startState\<lparr>calls := [CallRouter ?q]\<rparr>"
  let ?s2 = "startState\<lparr>memory := ?q,
               calls := [CallRouter ?q, CallCorrectSpelling ?q, CallNormalizeToMeaning ?q]\<rparr>"
  let ?s3 = "startState\<lparr>memory := ?q, EMB_CACHE := [?q \<mapsto> [1]],
               calls := [CallRouter ?q, CallCorrectSpelling ?q, CallNormalizeToMeaning ?q,
                         CallCacheGet ?q, CallEmbedText ?q]\<rparr>"
  let ?s4 = "startState\<lparr>memory := ?q, EMB_CACHE := [?q \<mapsto> [1]],
               calls := [CallRouter ?q, CallCorrectSpelling ?q, CallNormalizeToMeaning ?q,
                         CallCacheGet ?q, CallEmbedText ?q, CallFindTopMatches [1] ?q]\<rparr>"
  have h: "entry (ranking (m # ms)) (ask ?q) startState = (Continue ?q, ?s1)"
      "normalizeStage (ranking (m # ms)) ?q ?s1 = (Continue ?q, ?s2)"
      "embedCached (ranking (m # ms)) ?q ?s2 = (Continue [1], ?s3)"
      "search (ranking (m # ms)) ?q [1] ?s3 = (Continue (m # ms), ?s4)"
      "\<not> (length (split_ws ?q) \<le> 1 \<and> trim (multiList (m # ms)) \<noteq> [])" for m ms
    by (simp_all add: eval_defs ranking_def split_ws_def)
  note t = arbiter_thresholds [OF h, folded fsub_def GAP_def]
  have g: "\<bar>GAP\<bar> = GAP" "\<not> GAP < GAP"
    by (simp_all add: GAP_value)
  have nl: "\<not> d0_16 < 11 / 100"
    by (simp add: d0_16_value)
  have a: "handleChat (ranking [scored (1 / 2), scored d0_44]) (ask ?q) startState
     = (Some (Answer (ascii ''Ask the office.'') (Some Semantic)), ?s4)"
    using t [of "scored (1 / 2)" "[scored d0_44]", THEN conjunct2, THEN conjunct2, THEN conjunct1]
    by (simp add: scored_def fsub_half_d0_44 g)
  have b: "calls (snd (handleChat (ranking [scored d0_62, scored d0_56]) (ask ?q) startState))
     = calls ?s4 @ [CallLlmMeaningMatch ?q (ascii ''what are the fees'')]"
    using t [of "scored d0_62" "[scored d0_56]", THEN conjunct2, THEN conjunct2, THEN conjunct2,
             THEN conjunct1]
    by (simp add: scored_def fsub_d0_62_d0_56 GAP_value)
  have c: "handleChat (ranking [scored d0_16, scored d0_1]) (ask ?q) startState
     = (Some (Answer (ascii ''Ask the office.'') (Some Semantic)), ?s4)"
    using t [of "scored d0_16" "[scored d0_1]", THEN conjunct2, THEN conjunct2, THEN conjunct1] nl
    by (simp add: scored_def fsub_d0_16_d0_1 g)
  have d: "handleChat (ranking [scored d0_11]) (ask ?q) startState
     = (Some (Answer (ascii ''Ask the office.'') (Some Semantic)), ?s4)"
    using t [of "scored d0_11" "[]", THEN conjunct2, THEN conjunct2, THEN conjunct1]
    by (simp add: scored_def d0_11_value)
  have e: "calls (snd (handleChat (ranking [scored (1 / 16)]) (ask ?q) startState))
     = calls ?s4 @ [CallLlmMeaningMatch ?q (ascii ''what are the fees'')]"
    using t [of "scored (1 / 16)" "[]", THEN conjunct2, THEN conjunct2, THEN conjunct2,
             THEN conjunct1]
    by (simp add: scored_def)
  have f: "\<not> low (scored d0_11)"
    using t [of "scored d0_11" "[]", THEN conjunct1]
    by (simp add: scored_def d0_11_value)
  have i: "\<not> ambi (scored (1 / 2)) (Some (scored d0_44))"
    using t [of "scored (1 / 2)" "[scored d0_44]", THEN conjunct2, THEN conjunct1]
    by (simp add: scored_def fsub_half_d0_44 g)
  have j: "ambi (scored d0_62) (Some (scored d0_56))"
    using t [of "scored d0_62" "[scored d0_56]", THEN conjunct2, THEN conjunct1]
    by (simp add: scored_def fsub_d0_62_d0_56 GAP_value)
  from a b c d e f i j show ?thesis
    by (simp add: startState_def)
qed




section \<open>The multi-match mode\<close>

text \<open>
  Claim C3. Take a request that reaches the ranking: its question passes the router as
  \<open>q\<close>, is normalised to \<open>normalized\<close>, has the vector \<open>vector\<close>, and the matcher
  returns \<open>matches\<close>. If \<open>normalized\<close> splits at white space into exactly one piece and
  some candidate has a score of at least 0.08, the reply is tagged \<open>multi-match\<close> and its
  text is the answers of exactly the candidates with a score of at least 0.08, each after
  the bullet and a space, in the order of \<open>matches\<close> and joined by two line feeds. The
  controller does not sort: the order is descending by score because the matcher returns
  its candidates so, which is the hypothesis on \<open>matches\<close>. No call of
  \<open>llmMeaningMatch\<close> is made by the request.
\<close>

theorem multi_match_single_token:
  assumes "entry env req s = (Continue q, s1)"
    and "normalizeStage env q s1 = (Continue normalized, s2)"
    and "embedCached env normalized s2 = (Continue vector, s3)"
    and "search env normalized vector s3 = (Continue matches, s4)"
    and "length (split_ws normalized) = 1"
    and "\<exists>m\<in>set matches. m_score m \<ge> 8 / 100"
    and "sorted_wrt (\<ge>) (map m_score matches)"
  shows "handleChat env req s =
           (Some (Answer (join (ascii ''\<newline>\<newline>'')
                    (map (\<lambda>m. [0x2022, 0x0020] @ m_answer m)
                       (filter (\<lambda>m. m_score m \<ge> 8 / 100) matches)))
                  (Some MultiMatch)), s4)
     \<and> sorted_wrt (\<ge>) (map m_score (filter (\<lambda>m. m_score m \<ge> 8 / 100) matches))
     \<and> (\<exists>cs. calls (snd (handleChat env req s)) = calls s @ cs
           \<and> (\<forall>u c. CallLlmMeaningMatch u c \<notin> set cs))"
proof -
  from assms(6) obtain rest where st: "multiList matches = 0x2022 # rest"
    using multiList_starts by blast
  then have t: "trim (multiList matches) \<noteq> []"
    using trim_nonempty [OF bullet_not_white] by simp
  from assms(6) obtain best more where ms: "matches = best # more"
    by (cases matches) auto
  have r: "rankDecision env normalized matches s4 =
             (Answer (multiList matches) (Some MultiMatch), s4)"
    using t assms(5) unfolding ms by (simp add: rankDecision_def Let_def)
  have h: "handleChat env req s = (Some (Answer (multiList matches) (Some MultiMatch)), s4)"
    using handleChat_ranked [OF assms(1-4)] r by simp
  let ?P = "\<lambda>c. \<forall>u x. c \<noteq> CallLlmMeaningMatch u x"
  have "grows ?P s (snd (entry env req s))"
    by (rule grows_entry) simp
  moreover have "grows ?P s1 (snd (normalizeStage env q s1))"
    by (rule grows_normalizeStage) simp_all
  moreover have "grows ?P s2 (snd (embedCached env normalized s2))"
    by (rule grows_embedCached) simp_all
  moreover have "grows ?P s3 (snd (search env normalized vector s3))"
    by (rule grows_search) simp
  ultimately have "grows ?P s s4"
    using assms(1-4) by (auto intro: grows_trans)
  then have c: "\<exists>cs. calls (snd (handleChat env req s)) = calls s @ cs
           \<and> (\<forall>u c. CallLlmMeaningMatch u c \<notin> set cs)"
    unfolding h by (auto simp: grows_iff list_all_iff)
  show ?thesis
    using h c sorted_scores_filter [OF assms(7)]
    by (simp add: multiList_def bullet_def)
qed

text \<open>
  The query "fees" with candidates of scores 0.625, 0.125 and 0.0625: the first two are
  listed.
\<close>

theorem multi_match_single_token_witness:
  "fst (handleChat threeMatches (ask (ascii ''fees'')) startState)
     = Some (Answer ([0x2022, 0x0020] @ m_answer fees @ ascii ''\<newline>\<newline>''
                      @ [0x2022, 0x0020] @ m_answer hostel) (Some MultiMatch))
   \<and> calls (snd (handleChat threeMatches (ask (ascii ''fees'')) startState))
     = [CallRouter (ascii ''fees''), CallCorrectSpelling (ascii ''fees''),
        CallNormalizeToMeaning (ascii ''fees''), CallCacheGet (ascii ''fees''),
        CallEmbedText (ascii ''fees''), CallFindTopMatches [1] (ascii ''fees'')]"
proof -
  let ?q = "ascii ''fees''"
  let ?s1 = "startState\<lparr>calls := [CallRouter ?q]\<rparr>"
  let ?s2 = "startState\<lparr>memory := ?q,
               calls := [CallRouter ?q, CallCorrectSpelling ?q, CallNormalizeToMeaning ?q]\<rparr>"
  let ?s3 = "startState\<lparr>memory := ?q, EMB_CACHE := [?q \<mapsto> [1]],
               calls := [CallRouter ?q, CallCorrectSpelling ?q, CallNormalizeToMeaning ?q,
                         CallCacheGet ?q, CallEmbedText ?q]\<rparr>"
  let ?s4 = "startState\<lparr>memory := ?q, EMB_CACHE := [?q \<mapsto> [1]],
               calls := [CallRouter ?q, CallCorrectSpelling ?q, CallNormalizeToMeaning ?q,
                         CallCacheGet ?q, CallEmbedText ?q, CallFindTopMatches [1] ?q]\<rparr>"
  have h: "entry threeMatches (ask ?q) startState = (Continue ?q, ?s1)"
      "normalizeStage threeMatches ?q ?s1 = (Continue ?q, ?s2)"
      "embedCached threeMatches ?q ?s2 = (Continue [1], ?s3)"
      "search threeMatches ?q [1] ?s3 = (Continue [fees, hostel, weak], ?s4)"
      "length (split_ws ?q) = 1"
      "\<exists>m\<in>set [fees, hostel, weak]. m_score m \<ge> 8 / 100"
      "sorted_wrt (\<ge>) (map m_score [fees, hostel, weak])"
    by (simp_all add: eval_defs threeMatches_def split_ws_def)
  from multi_match_single_token [OF h] show ?thesis
    by (simp add: example_defs)
qed


section \<open>The LLM arbiter\<close>

text \<open>
  Claim C4. \<open>llmMeaningMatch\<close> returns \<open>true\<close> exactly when the reply, trimmed and then
  lower-cased, is "yes", \<open>false\<close> exactly when it is "no", and \<open>null\<close> in every other
  case: when the call throws, and for every other reply. A \<open>null\<close> or empty reply is
  such a reply (lower-casing the empty string gives the empty string), and so is every
  reply in which the source detects the fallback text.
\<close>

theorem llmMeaningMatch_tristate:
  "(llmMeaningMatch env userQ candidateQ = Some True \<longleftrightarrow>
      (\<exists>out. answerGeneralQuestion env (prompt userQ candidateQ) = Inr out
           \<and> toLowerCase env (trim (orEmpty out)) = ascii ''yes''))
   \<and> (llmMeaningMatch env userQ candidateQ = Some False \<longleftrightarrow>
      (\<exists>out. answerGeneralQuestion env (prompt userQ candidateQ) = Inr out
           \<and> toLowerCase env (trim (orEmpty out)) = ascii ''no''))
   \<and> (llmMeaningMatch env userQ candidateQ = None \<longleftrightarrow>
      (\<exists>err. answerGeneralQuestion env (prompt userQ candidateQ) = Inl err)
      \<or> (\<exists>out. answerGeneralQuestion env (prompt userQ candidateQ) = Inr out
           \<and> toLowerCase env (trim (orEmpty out)) \<noteq> ascii ''yes''
           \<and> toLowerCase env (trim (orEmpty out)) \<noteq> ascii ''no''))
   \<and> (toLowerCase env [] = [] \<longrightarrow>
        answerGeneralQuestion env (prompt userQ candidateQ) \<in> {Inr None, Inr (Some [])} \<longrightarrow>
        llmMeaningMatch env userQ candidateQ = None)
   \<and> (\<forall>out. answerGeneralQuestion env (prompt userQ candidateQ) = Inr out
        \<and> (includesStr (toLowerCase env (trim (orEmpty out))) (ascii ''montforticse.in'')
           \<or> startsWith (toLowerCase env (trim (orEmpty out)))
                (ascii ''i don'' @ [0x2019] @ ascii ''t have that information''))
        \<longrightarrow> llmMeaningMatch env userQ candidateQ = None)"
proof -
  have main: "llmMeaningMatch env userQ candidateQ =
      (case answerGeneralQuestion env (prompt userQ candidateQ) of
         Inl err \<Rightarrow> None
       | Inr out \<Rightarrow>
           if toLowerCase env (trim (orEmpty out)) = ascii ''yes'' then Some True
           else if toLowerCase env (trim (orEmpty out)) = ascii ''no'' then Some False
           else None)"
    by (simp add: llmMeaningMatch_def Let_def split: sum.splits)
  have empty: "trim [] = []" "orEmpty None = []" "orEmpty (Some []) = []"
    by (simp_all add: trim_def orEmpty_def)
  have short: "[] \<noteq> ascii ''yes''" "[] \<noteq> ascii ''no''"
    by (simp_all add: ascii_def)
  show ?thesis
    using includes_site_not_short starts_disclaimer_not_short
    by (auto simp: main empty short yes_not_no split: sum.splits)
qed

text \<open>
  The replies " Yes" followed by a line feed, "NO", \<open>null\<close>, the fallback text, and a call
  that throws.
\<close>

theorem llmMeaningMatch_tristate_witness:
  "llmMeaningMatch demoEnv (ascii ''fees'') (m_question fees) = Some True
   \<and> llmMeaningMatch (demoEnv\<lparr>answerGeneralQuestion := \<lambda>p. Inr (Some (ascii ''NO''))\<rparr>)
        (ascii ''fees'') (m_question fees) = Some False
   \<and> llmMeaningMatch (demoEnv\<lparr>answerGeneralQuestion := \<lambda>p. Inr None\<rparr>)
        (ascii ''fees'') (m_question fees) = None
   \<and> llmMeaningMatch (demoEnv\<lparr>answerGeneralQuestion := \<lambda>p. Inr (Some smartFallback)\<rparr>)
        (ascii ''fees'') (m_question fees) = None
   \<and> llmMeaningMatch (demoEnv\<lparr>answerGeneralQuestion := \<lambda>p. Inl (Exn (ascii ''429''))\<rparr>)
        (ascii ''fees'') (m_question fees) = None"
proof -
  note t = llmMeaningMatch_tristate [of _ "ascii ''fees''" "m_question fees"]
  have a: "llmMeaningMatch demoEnv (ascii ''fees'') (m_question fees) = Some True"
    using t [of demoEnv, THEN conjunct1]
    by (simp add: example_defs string_defs orEmpty_def)
  have b: "llmMeaningMatch (demoEnv\<lparr>answerGeneralQuestion := \<lambda>p. Inr (Some (ascii ''NO''))\<rparr>)
        (ascii ''fees'') (m_question fees) = Some False"
    using t [of "demoEnv\<lparr>answerGeneralQuestion := \<lambda>p. Inr (Some (ascii ''NO''))\<rparr>",
         THEN conjunct2, THEN conjunct1]
    by (simp add: example_defs string_defs orEmpty_def)
  have c: "llmMeaningMatch (demoEnv\<lparr>answerGeneralQuestion := \<lambda>p. Inr None\<rparr>)
        (ascii ''fees'') (m_question fees) = None"
    using t [of "demoEnv\<lparr>answerGeneralQuestion := \<lambda>p. Inr None\<rparr>",
         THEN conjunct2, THEN conjunct2, THEN conjunct2, THEN conjunct1]
    by (simp add: example_defs)
  have echo: "startsWith (toLowerCase demoEnv (trim (orEmpty (Some smartFallback))))
                  (ascii ''i don'' @ [0x2019] @ ascii ''t have that information'')"
    by (simp add: example_defs string_defs orEmpty_def smartFallback_def startsWith_def)
  have d: "llmMeaningMatch (demoEnv\<lparr>answerGeneralQuestion := \<lambda>p. Inr (Some smartFallback)\<rparr>)
        (ascii ''fees'') (m_question fees) = None"
    using t [of "demoEnv\<lparr>answerGeneralQuestion := \<lambda>p. Inr (Some smartFallback)\<rparr>",
         THEN conjunct2, THEN conjunct2, THEN conjunct2, THEN conjunct2, rule_format,
         of "Some smartFallback"] echo
    by simp
  have e: "llmMeaningMatch (demoEnv\<lparr>answerGeneralQuestion := \<lambda>p. Inl (Exn (ascii ''429''))\<rparr>)
        (ascii ''fees'') (m_question fees) = None"
    using t [of "demoEnv\<lparr>answerGeneralQuestion := \<lambda>p. Inl (Exn (ascii ''429''))\<rparr>",
         THEN conjunct2, THEN conjunct2, THEN conjunct1]
    by (simp add: example_defs)
  from a b c d e show ?thesis by simp
qed


section \<open>The follow-up memory\<close>

text \<open>
  Claim C5. Take a request that enters the pipeline with the question \<open>q\<close>: the
  \<open>question\<close> field \<open>raw\<close> of the request after the \<open>trim\<close> of line 138, which is
  what lines 158 to 165 work on. If the memory is not empty and \<open>q\<close> has at most 4 code
  units, the string given to \<open>correctSpelling\<close> is the memory, one space and \<open>q\<close>;
  otherwise it is \<open>q\<close>. This is the first call after the router, and what
  \<open>correctSpelling\<close> returns is what \<open>normalizeToMeaning\<close> is called with next: the
  merge comes before the spelling fix and the normalisation.
\<close>

theorem followup_merge:
  assumes "entry env req s = (Continue q, s1)"
  shows "(\<exists>b raw. body req = Some b \<and> question b = JString raw \<and> q = trim raw)
     \<and> (\<exists>cs. calls (snd (handleChat env req s)) =
            calls s @ [CallRouter q,
                       CallCorrectSpelling (if memory s \<noteq> [] \<and> length q \<le> 4
                                            then memory s @ ascii '' '' @ q else q)] @ cs
          \<and> (\<forall>corrected.
                correctSpelling env (if memory s \<noteq> [] \<and> length q \<le> 4
                                     then memory s @ ascii '' '' @ q else q) = Inr corrected \<longrightarrow>
                (\<exists>cs'. cs = CallNormalizeToMeaning corrected # cs')))"
proof -
  from entry_Continue [OF assms] obtain b raw where
    b: "body req = Some b" "question b = JString raw" "q = trim raw"
    and s1: "s1 = logCall (CallRouter q) (loadEmbeddingsOnce env s)"
    by blast
  have m1: "memory s1 = memory s" and c1: "calls s1 = calls s @ [CallRouter q]"
    using s1 by (simp_all add: logCall_def)
  have h: "snd (handleChat env req s) = snd (pipeline env q s1)"
    using assms by (simp add: snd_handleChat tryBlock_entry)
  from calls_pipeline [of env q s1] b show ?thesis
    unfolding h m1 c1 finalUser_def by auto
qed

text \<open>
  "fees" after "school" is merged to "school fees"; "hello" after "school" is not, and
  neither is "fees" on an empty memory. The last part runs the two requests "school" and
  "fees" one after the other from the initial state.
\<close>

theorem followup_merge_witness:
  "take 3 (calls (snd (handleChat demoEnv (ask (ascii ''fees'')) afterSchool)))
     = [CallRouter (ascii ''fees''), CallCorrectSpelling (ascii ''school fees''),
        CallNormalizeToMeaning (ascii ''school fees'')]
   \<and> take 3 (calls (snd (handleChat demoEnv (ask (ascii ''hello'')) afterSchool)))
     = [CallRouter (ascii ''hello''), CallCorrectSpelling (ascii ''hello''),
        CallNormalizeToMeaning (ascii ''hello'')]
   \<and> take 3 (calls (snd (handleChat demoEnv (ask (ascii ''fees'')) startState)))
     = [CallRouter (ascii ''fees''), CallCorrectSpelling (ascii ''fees''),
        CallNormalizeToMeaning (ascii ''fees'')]
   \<and> CallCorrectSpelling (ascii ''school fees'')
       \<in> set (calls (snd (handleChat demoEnv (ask (ascii ''fees''))
                     (snd (handleChat demoEnv (ask (ascii ''school'')) startState)))))"
proof -
  have a: "take 3 (calls (snd (handleChat demoEnv (ask (ascii ''fees'')) afterSchool)))
     = [CallRouter (ascii ''fees''), CallCorrectSpelling (ascii ''school fees''),
        CallNormalizeToMeaning (ascii ''school fees'')]"
    using followup_merge [of demoEnv "ask (ascii ''fees'')" afterSchool "ascii ''fees''"
        "afterSchool\<lparr>calls := [CallRouter (ascii ''fees'')]\<rparr>"]
    by (auto simp: eval_defs afterSchool_def)
  have b: "take 3 (calls (snd (handleChat demoEnv (ask (ascii ''hello'')) afterSchool)))
     = [CallRouter (ascii ''hello''), CallCorrectSpelling (ascii ''hello''),
        CallNormalizeToMeaning (ascii ''hello'')]"
    using followup_merge [of demoEnv "ask (ascii ''hello'')" afterSchool "ascii ''hello''"
        "afterSchool\<lparr>calls := [CallRouter (ascii ''hello'')]\<rparr>"]
    by (auto simp: eval_defs afterSchool_def)
  have c: "take 3 (calls (snd (handleChat demoEnv (ask (ascii ''fees'')) startState)))
     = [CallRouter (ascii ''fees''), CallCorrectSpelling (ascii ''fees''),
        CallNormalizeToMeaning (ascii ''fees'')]"
    using followup_merge [of demoEnv "ask (ascii ''fees'')" startState "ascii ''fees''"
        "startState\<lparr>calls := [CallRouter (ascii ''fees'')]\<rparr>"]
    by (auto simp: eval_defs)
  let ?q = "ascii ''school''"
  let ?t = "\<lparr>memory = ?q, EMB_CACHE = [?q \<mapsto> [1]], EMBEDDINGS = [],
             calls = [CallRouter ?q, CallCorrectSpelling ?q, CallNormalizeToMeaning ?q,
                      CallCacheGet ?q, CallEmbedText ?q, CallFindTopMatches [1] ?q]\<rparr>"
  have first: "snd (handleChat demoEnv (ask ?q) startState) = ?t"
    by (simp add: run_defs)
  have "entry demoEnv (ask (ascii ''fees'')) ?t
          = (Continue (ascii ''fees''), ?t\<lparr>calls := calls ?t @ [CallRouter (ascii ''fees'')]\<rparr>)"
    by (simp add: eval_defs)
  from followup_merge [OF this]
  have d: "CallCorrectSpelling (ascii ''school fees'')
       \<in> set (calls (snd (handleChat demoEnv (ask (ascii ''fees''))
                     (snd (handleChat demoEnv (ask (ascii ''school'')) startState)))))"
    unfolding first by (auto simp: ascii_def)
  from a b c d show ?thesis by simp
qed

text \<open>
  Claim C6 as stated fails: a request that the router answers with a panorama returns
  before line 165, and the memory keeps the previous question.
\<close>

theorem memory_bypass_counterexample:
  "fst (handleChat panoRouter (ask (ascii ''show the lobby'')) afterSchool)
     = Some (Intent (ascii ''pano'') (ascii ''lobby''))
   \<and> memory (snd (handleChat panoRouter (ask (ascii ''show the lobby'')) afterSchool))
     = ascii ''school''
   \<and> memory (snd (handleChat panoRouter (ask (ascii ''show the lobby'')) afterSchool))
     \<noteq> ascii ''show the lobby''"
proof -
  have "entry panoRouter (ask (ascii ''show the lobby'')) afterSchool
          = (Return (Intent (ascii ''pano'') (ascii ''lobby'')),
             afterSchool\<lparr>calls := [CallRouter (ascii ''show the lobby'')]\<rparr>)"
    by (simp add: eval_defs panoRouter_def afterSchool_def)
  then have "handleChat panoRouter (ask (ascii ''show the lobby'')) afterSchool
          = (Some (Intent (ascii ''pano'') (ascii ''lobby'')),
             afterSchool\<lparr>calls := [CallRouter (ascii ''show the lobby'')]\<rparr>)"
    by (rule handleChat_entry_Return)
  then show ?thesis
    by (simp add: afterSchool_def startState_def ascii_def)
qed

text \<open>
  Claim C6, amended. A request that enters the pipeline (the required-question check passes
  and the router returns an intent other than \<open>pano\<close> and \<open>project\<close>) leaves the memory
  equal to its question as trimmed at line 138, not to the merged form, whatever the later
  blocks do, exceptions included. Every other request (rejected by the check, answered by the
  routing bypass, or on which the router throws) leaves the memory as it was.
\<close>

theorem memory_overwritten:
  "(\<forall>q s1. entry env req s = (Continue q, s1) \<longrightarrow>
       memory (snd (handleChat env req s)) = q
       \<and> (\<exists>b raw. body req = Some b \<and> question b = JString raw \<and> q = trim raw))
   \<and> ((\<forall>q. fst (entry env req s) \<noteq> Continue q) \<longrightarrow>
       memory (snd (handleChat env req s)) = memory s)"
proof (intro conjI allI impI)
  fix q s1
  assume e: "entry env req s = (Continue q, s1)"
  then show "memory (snd (handleChat env req s)) = q"
    by (simp add: snd_handleChat tryBlock_entry memory_pipeline)
  from entry_Continue [OF e]
  show "\<exists>b raw. body req = Some b \<and> question b = JString raw \<and> q = trim raw"
    by blast
next
  assume n: "\<forall>q. fst (entry env req s) \<noteq> Continue q"
  obtain st s1 where e: "entry env req s = (st, s1)"
    by (cases "entry env req s")
  have m: "memory s1 = memory s"
    using memory_entry [of env req s] e by simp
  from n e show "memory (snd (handleChat env req s)) = memory s"
    by (cases st) (simp_all add: handleChat_entry_Throw handleChat_entry_Return m)
qed

text \<open>
  " fees " after "school" leaves "fees" in the memory, also when the embedding throws; a
  request without a body leaves "school".
\<close>

theorem memory_overwritten_witness:
  "memory (snd (handleChat demoEnv (ask (ascii '' fees '')) afterSchool)) = ascii ''fees''
   \<and> memory (snd (handleChat (demoEnv\<lparr>embedText := \<lambda>t. Inl boom\<rparr>) (ask (ascii '' fees ''))
        afterSchool)) = ascii ''fees''
   \<and> memory (snd (handleChat demoEnv \<lparr>body = None\<rparr> afterSchool)) = ascii ''school''"
proof -
  have a: "memory (snd (handleChat demoEnv (ask (ascii '' fees '')) afterSchool)) = ascii ''fees''"
    using memory_overwritten [of demoEnv "ask (ascii '' fees '')" afterSchool, THEN conjunct1,
        rule_format, of "ascii ''fees''" "afterSchool\<lparr>calls := [CallRouter (ascii ''fees'')]\<rparr>"]
    by (simp add: eval_defs afterSchool_def)
  have b: "memory (snd (handleChat (demoEnv\<lparr>embedText := \<lambda>t. Inl boom\<rparr>) (ask (ascii '' fees ''))
        afterSchool)) = ascii ''fees''"
    using memory_overwritten [of "demoEnv\<lparr>embedText := \<lambda>t. Inl boom\<rparr>" "ask (ascii '' fees '')"
        afterSchool, THEN conjunct1,
        rule_format, of "ascii ''fees''" "afterSchool\<lparr>calls := [CallRouter (ascii ''fees'')]\<rparr>"]
    by (simp add: eval_defs afterSchool_def)
  have c: "memory (snd (handleChat demoEnv \<lparr>body = None\<rparr> afterSchool)) = ascii ''school''"
    using memory_overwritten [of demoEnv "\<lparr>body = None\<rparr>" afterSchool, THEN conjunct2]
    by (simp add: eval_defs afterSchool_def)
  from a b c show ?thesis by simp
qed


section \<open>The embedding lookup\<close>

text \<open>
  Claim C7 as stated fails in its first part: nothing in the controller tests the normalised
  query for emptiness, and with a normaliser that returns the empty string the cache is read
  and \<open>embedText\<close> is called with the empty string.
\<close>

theorem empty_query_lookup_counterexample:
  "normalizeToMeaning blankNormalizer (ascii ''wat is speling'') = Inr []
   \<and> calls (snd (handleChat blankNormalizer (ask (ascii ''wat is speling'')) startState))
     = [CallRouter (ascii ''wat is speling''), CallCorrectSpelling (ascii ''wat is speling''),
        CallNormalizeToMeaning (ascii ''wat is speling''), CallCacheGet [], CallEmbedText []]"
  by (simp add: run_defs blankNormalizer_def)

text \<open>
  Claim C7, amended. For every request that is normalised, to \<open>normalized\<close>, the cache is
  read with \<open>normalized\<close>, and on a miss \<open>embedText\<close> is called with it, whether
  \<open>normalized\<close> is empty or not. When the vector obtained has length zero, the reply is the
  fallback tagged \<open>no-vector\<close> and the request ends in the state the cache block left. No
  request calls \<open>findTopMatches\<close> with a vector of length zero.
\<close>

theorem zero_vector_never_matched:
  "(\<forall>q s1 normalized s2. entry env req s = (Continue q, s1)
        \<and> normalizeStage env q s1 = (Continue normalized, s2) \<longrightarrow>
        (\<exists>cs. calls (snd (handleChat env req s)) = calls s2 @ CallCacheGet normalized # cs
              \<and> (EMB_CACHE s2 normalized = None \<longrightarrow> CallEmbedText normalized \<in> set cs))
        \<and> (\<forall>s3. embedCached env normalized s2 = (Continue [], s3) \<longrightarrow>
              handleChat env req s = (Some (Answer smartFallback (Some NoVector)), s3)))
   \<and> (\<exists>cs. calls (snd (handleChat env req s)) = calls s @ cs
          \<and> (\<forall>normalized. CallFindTopMatches [] normalized \<notin> set cs))"
proof (intro conjI allI impI)
  fix q s1 normalized s2
  assume a: "entry env req s = (Continue q, s1)
        \<and> normalizeStage env q s1 = (Continue normalized, s2)"
  then have h: "tryBlock env req s = answerFrom env normalized s2"
    by (simp add: tryBlock_entry pipeline_normalized)
  from calls_answerFrom [of env normalized s2]
  show "\<exists>cs. calls (snd (handleChat env req s)) = calls s2 @ CallCacheGet normalized # cs
              \<and> (EMB_CACHE s2 normalized = None \<longrightarrow> CallEmbedText normalized \<in> set cs)"
    by (simp add: snd_handleChat h)
  fix s3
  assume "embedCached env normalized s2 = (Continue [], s3)"
  then show "handleChat env req s = (Some (Answer smartFallback (Some NoVector)), s3)"
    by (simp add: handleChat_def h answerFrom_def search_def)
next
  have "grows (\<lambda>c. \<forall>normalized. c \<noteq> CallFindTopMatches [] normalized) s
          (snd (handleChat env req s))"
    by (rule grows_handleChat) simp_all
  then show "\<exists>cs. calls (snd (handleChat env req s)) = calls s @ cs
          \<and> (\<forall>normalized. CallFindTopMatches [] normalized \<notin> set cs)"
    by (auto simp: grows_iff list_all_iff)
qed

text \<open>
  With the normaliser that returns the empty string and an empty vector for it, the request
  ends tagged \<open>no-vector\<close> after the cache read and the embedding call.
\<close>

theorem zero_vector_never_matched_witness:
  "handleChat blankNormalizer (ask (ascii ''wat is speling'')) startState
     = (Some (Answer smartFallback (Some NoVector)),
        \<lparr>memory = ascii ''wat is speling'', EMB_CACHE = [[] \<mapsto> []], EMBEDDINGS = [],
         calls = [CallRouter (ascii ''wat is speling''),
                  CallCorrectSpelling (ascii ''wat is speling''),
                  CallNormalizeToMeaning (ascii ''wat is speling''),
                  CallCacheGet [], CallEmbedText []]\<rparr>)"
  using zero_vector_never_matched [of blankNormalizer "ask (ascii ''wat is speling'')" startState,
      THEN conjunct1, rule_format, of "ascii ''wat is speling''"
        "startState\<lparr>calls := [CallRouter (ascii ''wat is speling'')]\<rparr>" "[]"
        "startState\<lparr>memory := ascii ''wat is speling'',
           calls := [CallRouter (ascii ''wat is speling''),
                  CallCorrectSpelling (ascii ''wat is speling''),
                  CallNormalizeToMeaning (ascii ''wat is speling'')]\<rparr>",
      THEN conjunct2, rule_format, of
        "\<lparr>memory = ascii ''wat is speling'', EMB_CACHE = [[] \<mapsto> []], EMBEDDINGS = [],
         calls = [CallRouter (ascii ''wat is speling''),
                  CallCorrectSpelling (ascii ''wat is speling''),
                  CallNormalizeToMeaning (ascii ''wat is speling''),
                  CallCacheGet [], CallEmbedText []]\<rparr>"]
  by (simp add: eval_defs blankNormalizer_def)

text \<open>
  Claim C8. On a miss for \<open>Q\<close> on which \<open>embedText\<close> returns \<open>v\<close>, the cache block
  calls \<open>embedText\<close> once, stores \<open>v\<close> under the key \<open>Q\<close> and goes on with \<open>v\<close>. A
  second run on the resulting state, with any collaborators, goes on with the same \<open>v\<close>,
  leaves the cache as it is and only reads it: over the two runs \<open>embedText\<close> is called
  exactly once. More generally, on every state whose cache holds \<open>v\<close> under \<open>Q\<close> the
  block goes on with \<open>v\<close> and calls nothing. Nothing is asked of \<open>v\<close>, so all of this
  holds when \<open>v\<close> is empty.
\<close>

theorem embedding_memoized:
  assumes "EMB_CACHE s Q = None" and "embedText env Q = Inr v"
  shows "\<exists>s1. embedCached env Q s = (Continue v, s1)
           \<and> EMB_CACHE s1 = (EMB_CACHE s)(Q \<mapsto> v)
           \<and> calls s1 = calls s @ [CallCacheGet Q, CallEmbedText Q]
           \<and> (\<forall>env'. \<exists>s2. embedCached env' Q s1 = (Continue v, s2)
                  \<and> EMB_CACHE s2 = EMB_CACHE s1
                  \<and> calls s2 = calls s1 @ [CallCacheGet Q]
                  \<and> count_list (drop (length (calls s)) (calls s2)) (CallEmbedText Q) = 1)
           \<and> (\<forall>env' s'. EMB_CACHE s' Q = Some v \<longrightarrow>
                  embedCached env' Q s' = (Continue v, logCall (CallCacheGet Q) s'))"
  using assms by (simp add: embedCached_def Let_def logCall_def)

text \<open>
  A miss for "fees", and two runs on the empty query with an empty vector.
\<close>

theorem embedding_memoized_witness:
  "fst (embedCached demoEnv (ascii ''fees'') startState) = Continue [1]
   \<and> calls (snd (embedCached demoEnv (ascii ''fees'') startState))
       = [CallCacheGet (ascii ''fees''), CallEmbedText (ascii ''fees'')]
   \<and> fst (embedCached (demoEnv\<lparr>embedText := \<lambda>t. Inr []\<rparr>) []
            (snd (embedCached (demoEnv\<lparr>embedText := \<lambda>t. Inr []\<rparr>) [] startState)))
       = Continue []
   \<and> calls (snd (embedCached (demoEnv\<lparr>embedText := \<lambda>t. Inr []\<rparr>) []
            (snd (embedCached (demoEnv\<lparr>embedText := \<lambda>t. Inr []\<rparr>) [] startState))))
       = [CallCacheGet [], CallEmbedText [], CallCacheGet []]"
proof -
  have miss: "EMB_CACHE startState Q = None" for Q
    by (simp add: startState_def)
  have nocalls: "calls startState = []"
    by (simp add: startState_def)
  have e1: "embedText demoEnv (ascii ''fees'') = Inr [1]"
    by (simp add: demoEnv_def)
  have e2: "embedText (demoEnv\<lparr>embedText := \<lambda>t. Inr []\<rparr>) [] = Inr []"
    by simp
  obtain s1 where s1: "embedCached demoEnv (ascii ''fees'') startState = (Continue [1], s1)"
      "calls s1 = calls startState @ [CallCacheGet (ascii ''fees''), CallEmbedText (ascii ''fees'')]"
    using embedding_memoized [OF miss e1] by blast
  obtain t1 where t1:
      "embedCached (demoEnv\<lparr>embedText := \<lambda>t. Inr []\<rparr>) [] startState = (Continue [], t1)"
      "calls t1 = calls startState @ [CallCacheGet [], CallEmbedText []]"
      "\<forall>env'. \<exists>s2. embedCached env' [] t1 = (Continue [], s2)
                  \<and> EMB_CACHE s2 = EMB_CACHE t1
                  \<and> calls s2 = calls t1 @ [CallCacheGet []]
                  \<and> count_list (drop (length (calls startState)) (calls s2)) (CallEmbedText []) = 1"
    using embedding_memoized [OF miss e2] by blast
  from t1(3) obtain t2 where t2:
      "embedCached (demoEnv\<lparr>embedText := \<lambda>t. Inr []\<rparr>) [] t1 = (Continue [], t2)"
      "calls t2 = calls t1 @ [CallCacheGet []]"
    by blast
  show ?thesis
    using s1 t1(1,2) t2 nocalls by simp
qed


section \<open>The top-level catch\<close>

text \<open>
  Claim C9. \<open>handleChat\<close> always gives a reply to \<open>res.json\<close>, of one of the shapes
  "question is required", \<open>{intent, target}\<close> with the intent \<open>pano\<close> or \<open>project\<close>,
  or \<open>{answer, via}\<close>. Whenever the \<open>try\<close> block throws, the reply is the fallback
  tagged \<open>error\<close>; this is what happens when the router, \<open>correctSpelling\<close>,
  \<open>normalizeToMeaning\<close>, \<open>embedText\<close> (on a miss) or \<open>findTopMatches\<close> throws at its
  call. (\<open>res.json\<close> itself is taken not to throw; a throw of \<open>answerGeneralQuestion\<close>
  is caught inside \<open>llmMeaningMatch\<close>.)
\<close>

theorem handleChat_never_raises:
  "(\<exists>r. fst (handleChat env req s) = Some r
      \<and> (r = Answer (ascii ''question is required'') None
         \<or> (\<exists>t. r = Intent (ascii ''pano'') t) \<or> (\<exists>t. r = Intent (ascii ''project'') t)
         \<or> (\<exists>a v. r = Answer a (Some v))))
   \<and> (\<forall>e s'. tryBlock env req s = (Throw e, s') \<longrightarrow>
         handleChat env req s = (Some (Answer smartFallback (Some Error)), s'))
   \<and> (\<forall>b raw e. body req = Some b \<and> question b = JString raw \<and> raw \<noteq> []
         \<and> aiIntentRouter env (trim raw) (case panoNames b of None \<Rightarrow> [] | Some ns \<Rightarrow> ns)
              (case projectNames b of None \<Rightarrow> [] | Some ns \<Rightarrow> ns) = Inl e \<longrightarrow>
         fst (handleChat env req s) = Some (Answer smartFallback (Some Error)))
   \<and> (\<forall>q s1 e. entry env req s = (Continue q, s1)
         \<and> correctSpelling env (finalUser (memory s1) q) = Inl e \<longrightarrow>
         fst (handleChat env req s) = Some (Answer smartFallback (Some Error)))
   \<and> (\<forall>q s1 corrected e. entry env req s = (Continue q, s1)
         \<and> correctSpelling env (finalUser (memory s1) q) = Inr corrected
         \<and> normalizeToMeaning env corrected = Inl e \<longrightarrow>
         fst (handleChat env req s) = Some (Answer smartFallback (Some Error)))
   \<and> (\<forall>q s1 normalized s2 e. entry env req s = (Continue q, s1)
         \<and> normalizeStage env q s1 = (Continue normalized, s2)
         \<and> EMB_CACHE s2 normalized = None \<and> embedText env normalized = Inl e \<longrightarrow>
         fst (handleChat env req s) = Some (Answer smartFallback (Some Error)))
   \<and> (\<forall>q s1 normalized s2 vector s3 e. entry env req s = (Continue q, s1)
         \<and> normalizeStage env q s1 = (Continue normalized, s2)
         \<and> embedCached env normalized s2 = (Continue vector, s3) \<and> vector \<noteq> []
         \<and> findTopMatches env vector (EMBEDDINGS s3) normalized 5 = Inl e \<longrightarrow>
         fst (handleChat env req s) = Some (Answer smartFallback (Some Error)))"
proof (intro conjI allI impI)
  show "\<exists>r. fst (handleChat env req s) = Some r
      \<and> (r = Answer (ascii ''question is required'') None
         \<or> (\<exists>t. r = Intent (ascii ''pano'') t) \<or> (\<exists>t. r = Intent (ascii ''project'') t)
         \<or> (\<exists>a v. r = Answer a (Some v)))"
    by (rule handleChat_reply)
next
  fix e s'
  assume "tryBlock env req s = (Throw e, s')"
  then show "handleChat env req s = (Some (Answer smartFallback (Some Error)), s')"
    by (simp add: handleChat_def)
next
  fix b raw e
  assume "body req = Some b \<and> question b = JString raw \<and> raw \<noteq> []
         \<and> aiIntentRouter env (trim raw) (case panoNames b of None \<Rightarrow> [] | Some ns \<Rightarrow> ns)
              (case projectNames b of None \<Rightarrow> [] | Some ns \<Rightarrow> ns) = Inl e"
  then have "fst (entry env req s) = Throw e"
    by (simp add: entry_def Let_def)
  then show "fst (handleChat env req s) = Some (Answer smartFallback (Some Error))"
    by (cases "entry env req s") (simp add: handleChat_entry_Throw)
next
  fix q s1 e
  assume "entry env req s = (Continue q, s1)
         \<and> correctSpelling env (finalUser (memory s1) q) = Inl e"
  then show "fst (handleChat env req s) = Some (Answer smartFallback (Some Error))"
    by (simp add: handleChat_def tryBlock_entry pipeline_def normalizeStage_def Let_def)
next
  fix q s1 corrected e
  assume "entry env req s = (Continue q, s1)
         \<and> correctSpelling env (finalUser (memory s1) q) = Inr corrected
         \<and> normalizeToMeaning env corrected = Inl e"
  then show "fst (handleChat env req s) = Some (Answer smartFallback (Some Error))"
    by (simp add: handleChat_def tryBlock_entry pipeline_def normalizeStage_def Let_def)
next
  fix q s1 normalized s2 e
  assume "entry env req s = (Continue q, s1)
         \<and> normalizeStage env q s1 = (Continue normalized, s2)
         \<and> EMB_CACHE s2 normalized = None \<and> embedText env normalized = Inl e"
  then show "fst (handleChat env req s) = Some (Answer smartFallback (Some Error))"
    by (simp add: handleChat_def tryBlock_entry pipeline_normalized answerFrom_def
                  embedCached_def Let_def logCall_def)
next
  fix q s1 normalized s2 vector s3 e
  assume "entry env req s = (Continue q, s1)
         \<and> normalizeStage env q s1 = (Continue normalized, s2)
         \<and> embedCached env normalized s2 = (Continue vector, s3) \<and> vector \<noteq> []
         \<and> findTopMatches env vector (EMBEDDINGS s3) normalized 5 = Inl e"
  then show "fst (handleChat env req s) = Some (Answer smartFallback (Some Error))"
    by (simp add: handleChat_def tryBlock_entry pipeline_normalized answerFrom_def
                  search_def Let_def)
qed

text \<open>
  The question "fees" with each of the five collaborators throwing in turn.
\<close>

theorem handleChat_never_raises_witness:
  "fst (handleChat (demoEnv\<lparr>aiIntentRouter := \<lambda>q ps js. Inl boom\<rparr>)
          (ask (ascii ''fees'')) startState)
     = Some (Answer smartFallback (Some Error))
   \<and> fst (handleChat (demoEnv\<lparr>correctSpelling := \<lambda>t. Inl boom\<rparr>)
          (ask (ascii ''fees'')) startState)
     = Some (Answer smartFallback (Some Error))
   \<and> fst (handleChat (demoEnv\<lparr>normalizeToMeaning := \<lambda>t. Inl boom\<rparr>)
          (ask (ascii ''fees'')) startState)
     = Some (Answer smartFallback (Some Error))
   \<and> fst (handleChat (demoEnv\<lparr>embedText := \<lambda>t. Inl boom\<rparr>)
          (ask (ascii ''fees'')) startState)
     = Some (Answer smartFallback (Some Error))
   \<and> fst (handleChat (demoEnv\<lparr>findTopMatches := \<lambda>v es n k. Inl boom\<rparr>)
          (ask (ascii ''fees'')) startState)
     = Some (Answer smartFallback (Some Error))"
proof -
  let ?req = "ask (ascii ''fees'')"
  let ?s1 = "startState\<lparr>calls := [CallRouter (ascii ''fees'')]\<rparr>"
  let ?s2 = "startState\<lparr>memory := ascii ''fees'', calls := [CallRouter (ascii ''fees''),
               CallCorrectSpelling (ascii ''fees''), CallNormalizeToMeaning (ascii ''fees'')]\<rparr>"
  have a: "fst (handleChat (demoEnv\<lparr>aiIntentRouter := \<lambda>q ps js. Inl boom\<rparr>) ?req startState)
     = Some (Answer smartFallback (Some Error))"
    using handleChat_never_raises [of "demoEnv\<lparr>aiIntentRouter := \<lambda>q ps js. Inl boom\<rparr>" ?req
        startState,
        THEN conjunct2, THEN conjunct2, THEN conjunct1, rule_format,
        of "\<lparr>question = JString (ascii ''fees''), panoNames = None, projectNames = None\<rparr>"
           "ascii ''fees''" boom]
    by (simp add: ask_def ascii_def)
  have b: "fst (handleChat (demoEnv\<lparr>correctSpelling := \<lambda>t. Inl boom\<rparr>) ?req startState)
     = Some (Answer smartFallback (Some Error))"
    using handleChat_never_raises [of "demoEnv\<lparr>correctSpelling := \<lambda>t. Inl boom\<rparr>" ?req
        startState,
        THEN conjunct2, THEN conjunct2, THEN conjunct2, THEN conjunct1, rule_format,
        of "ascii ''fees''" ?s1 boom]
    by (simp add: eval_defs)
  have c: "fst (handleChat (demoEnv\<lparr>normalizeToMeaning := \<lambda>t. Inl boom\<rparr>) ?req startState)
     = Some (Answer smartFallback (Some Error))"
    using handleChat_never_raises [of "demoEnv\<lparr>normalizeToMeaning := \<lambda>t. Inl boom\<rparr>" ?req
        startState,
        THEN conjunct2, THEN conjunct2, THEN conjunct2, THEN conjunct2, THEN conjunct1,
        rule_format,
        of "ascii ''fees''" ?s1 "ascii ''fees''" boom]
    by (simp add: eval_defs)
  have d: "fst (handleChat (demoEnv\<lparr>embedText := \<lambda>t. Inl boom\<rparr>) ?req startState)
     = Some (Answer smartFallback (Some Error))"
    using handleChat_never_raises [of "demoEnv\<lparr>embedText := \<lambda>t. Inl boom\<rparr>" ?req
        startState,
        THEN conjunct2, THEN conjunct2, THEN conjunct2, THEN conjunct2, THEN conjunct2,
        THEN conjunct1, rule_format, of "ascii ''fees''" ?s1 "ascii ''fees''" ?s2 boom]
    by (simp add: eval_defs)
  have e: "fst (handleChat (demoEnv\<lparr>findTopMatches := \<lambda>v es n k. Inl boom\<rparr>) ?req startState)
     = Some (Answer smartFallback (Some Error))"
    using handleChat_never_raises [of "demoEnv\<lparr>findTopMatches := \<lambda>v es n k. Inl boom\<rparr>" ?req
        startState,
        THEN conjunct2, THEN conjunct2, THEN conjunct2, THEN conjunct2, THEN conjunct2,
        THEN conjunct2, rule_format, of "ascii ''fees''" ?s1 "ascii ''fees''" ?s2 "[1]"
          "?s2\<lparr>EMB_CACHE := [ascii ''fees'' \<mapsto> [1]],
               calls := [CallRouter (ascii ''fees''), CallCorrectSpelling (ascii ''fees''),
                 CallNormalizeToMeaning (ascii ''fees''), CallCacheGet (ascii ''fees''),
                 CallEmbedText (ascii ''fees'')]\<rparr>" boom]
    by (simp add: eval_defs)
  from a b c d e show ?thesis by simp
qed


section \<open>Questions of white space only\<close>

text \<open>
  Claim C10 as stated fails in its last part: after the question "school", a question of
  three spaces is merged with the memory, and it is "school " with its trailing space, not
  the empty string, that goes through the spelling fix, the normalisation and the embedding.
\<close>

theorem whitespace_merge_counterexample:
  "calls (snd (handleChat demoEnv (ask (ascii ''   '')) afterSchool))
     = [CallRouter [], CallCorrectSpelling (ascii ''school ''),
        CallNormalizeToMeaning (ascii ''school ''), CallCacheGet (ascii ''school ''),
        CallEmbedText (ascii ''school ''), CallFindTopMatches [1] (ascii ''school '')]
   \<and> CallCorrectSpelling []
        \<notin> set (calls (snd (handleChat demoEnv (ask (ascii ''   '')) afterSchool)))
   \<and> CallNormalizeToMeaning []
        \<notin> set (calls (snd (handleChat demoEnv (ask (ascii ''   '')) afterSchool)))
   \<and> CallCacheGet []
        \<notin> set (calls (snd (handleChat demoEnv (ask (ascii ''   '')) afterSchool)))"
proof -
  have "calls (snd (handleChat demoEnv (ask (ascii ''   '')) afterSchool))
     = [CallRouter [], CallCorrectSpelling (ascii ''school ''),
        CallNormalizeToMeaning (ascii ''school ''), CallCacheGet (ascii ''school ''),
        CallEmbedText (ascii ''school ''), CallFindTopMatches [1] (ascii ''school '')]"
    by (simp add: run_defs afterSchool_def)
  then show ?thesis by (simp add: ascii_def)
qed

text \<open>
  Claim C10, amended. A request whose question is a non-empty string of white space only is
  never answered "question is required": the check comes before the \<open>trim\<close>. When the
  router, called with the empty string, returns an intent other than \<open>pano\<close> and
  \<open>project\<close>, the request enters the pipeline with the empty string, which overwrites the
  memory. The string given to \<open>correctSpelling\<close> is the follow-up merge of the previous
  memory and the empty string: the empty string when the memory was empty, the memory
  followed by one space otherwise. What \<open>correctSpelling\<close> returns is given to
  \<open>normalizeToMeaning\<close>, and what that returns is looked up in the embedding cache.
\<close>

theorem whitespace_question:
  assumes "body req = Some b" and "question b = JString raw" and "raw \<noteq> []"
    and "\<forall>c\<in>set raw. isWhiteSpace c"
  shows "fst (handleChat env req s) \<noteq> Some (Answer (ascii ''question is required'') None)
     \<and> (\<forall>ai. aiIntentRouter env [] (case panoNames b of None \<Rightarrow> [] | Some ns \<Rightarrow> ns)
               (case projectNames b of None \<Rightarrow> [] | Some ns \<Rightarrow> ns) = Inr ai
            \<and> intent ai \<noteq> ascii ''pano'' \<and> intent ai \<noteq> ascii ''project'' \<longrightarrow>
          memory (snd (handleChat env req s)) = []
          \<and> (\<exists>cs. calls (snd (handleChat env req s)) =
                 calls s @ [CallRouter [],
                            CallCorrectSpelling
                              (if memory s \<noteq> [] then memory s @ ascii '' '' else [])] @ cs
               \<and> (\<forall>corrected.
                     correctSpelling env (if memory s \<noteq> [] then memory s @ ascii '' '' else [])
                       = Inr corrected \<longrightarrow>
                     (\<exists>cs'. cs = CallNormalizeToMeaning corrected # cs'
                        \<and> (\<forall>normalized. normalizeToMeaning env corrected = Inr normalized \<longrightarrow>
                             (\<exists>cs''. cs' = CallCacheGet normalized # cs''))))))"
proof (intro conjI allI impI)
  obtain st s1 where e: "entry env req s = (st, s1)"
    by (cases "entry env req s")
  show "fst (handleChat env req s) \<noteq> Some (Answer (ascii ''question is required'') None)"
  proof (cases st)
    case (Throw err)
    with e show ?thesis by (simp add: handleChat_entry_Throw)
  next
    case (Return r)
    with e entry_valid_not_required [OF assms(1-3), of env s s1] show ?thesis
      by (auto simp: handleChat_entry_Return)
  next
    case (Continue q)
    with e have h: "handleChat env req s =
      (case pipeline env q s1 of
         (Throw err, s') \<Rightarrow> (Some (Answer smartFallback (Some Error)), s')
       | (Return r, s') \<Rightarrow> (Some r, s')
       | (Continue u, s') \<Rightarrow> (None, s'))"
      by (simp add: handleChat_def tryBlock_entry)
    show ?thesis
    proof (cases "pipeline env q s1")
      case (Pair st' s')
      then show ?thesis
        using pipeline_reply [of env q s1 _ s']
        by (cases st') (auto simp: h)
    qed
  qed
next
  fix ai
  assume r: "aiIntentRouter env [] (case panoNames b of None \<Rightarrow> [] | Some ns \<Rightarrow> ns)
               (case projectNames b of None \<Rightarrow> [] | Some ns \<Rightarrow> ns) = Inr ai
            \<and> intent ai \<noteq> ascii ''pano'' \<and> intent ai \<noteq> ascii ''project''"
  let ?s1 = "logCall (CallRouter []) (loadEmbeddingsOnce env s)"
  have t: "trim raw = []"
    using assms(4) by (rule trim_all_white)
  have e: "entry env req s = (Continue [], ?s1)"
    using entry_reached [of req b raw env ai s] assms r t by simp
  show "memory (snd (handleChat env req s)) = []"
    using e by (simp add: snd_handleChat tryBlock_entry memory_pipeline)
  have f: "finalUser (memory ?s1) [] = (if memory s \<noteq> [] then memory s @ ascii '' '' else [])"
    by (simp add: finalUser_def)
  have c: "calls ?s1 = calls s @ [CallRouter []]"
    by (simp add: logCall_def)
  have p: "snd (handleChat env req s) = snd (pipeline env [] ?s1)"
    using e by (simp add: snd_handleChat tryBlock_entry)
  from calls_pipeline [of env "[]" ?s1]
  show "\<exists>cs. calls (snd (handleChat env req s)) =
                 calls s @ [CallRouter [],
                            CallCorrectSpelling
                              (if memory s \<noteq> [] then memory s @ ascii '' '' else [])] @ cs
               \<and> (\<forall>corrected.
                     correctSpelling env (if memory s \<noteq> [] then memory s @ ascii '' '' else [])
                       = Inr corrected \<longrightarrow>
                     (\<exists>cs'. cs = CallNormalizeToMeaning corrected # cs'
                        \<and> (\<forall>normalized. normalizeToMeaning env corrected = Inr normalized \<longrightarrow>
                             (\<exists>cs''. cs' = CallCacheGet normalized # cs''))))"
    unfolding p f c by auto
qed

text \<open>
  Three spaces: not rejected, also under the panorama router; the memory "school" is
  replaced by the empty string; the strings sent on with and without a previous memory.
\<close>

theorem whitespace_question_witness:
  "fst (handleChat panoRouter (ask (ascii ''   '')) startState)
      \<noteq> Some (Answer (ascii ''question is required'') None)
   \<and> memory (snd (handleChat demoEnv (ask (ascii ''   '')) afterSchool)) = []
   \<and> take 4 (calls (snd (handleChat demoEnv (ask (ascii ''   '')) startState)))
      = [CallRouter [], CallCorrectSpelling [], CallNormalizeToMeaning [], CallCacheGet []]
   \<and> take 4 (calls (snd (handleChat demoEnv (ask (ascii ''   '')) afterSchool)))
      = [CallRouter [], CallCorrectSpelling (ascii ''school ''),
         CallNormalizeToMeaning (ascii ''school ''), CallCacheGet (ascii ''school '')]"
proof -
  let ?b = "\<lparr>question = JString (ascii ''   ''), panoNames = None, projectNames = None\<rparr>"
  let ?ai = "\<lparr>intent = ascii ''school'', target = []\<rparr>"
  have h: "body (ask (ascii ''   '')) = Some ?b" "question ?b = JString (ascii ''   '')"
      "ascii ''   '' \<noteq> []" "\<forall>c\<in>set (ascii ''   ''). isWhiteSpace c"
    by (simp_all add: example_defs string_defs)
  have r: "aiIntentRouter demoEnv [] (case panoNames ?b of None \<Rightarrow> [] | Some ns \<Rightarrow> ns)
             (case projectNames ?b of None \<Rightarrow> [] | Some ns \<Rightarrow> ns) = Inr ?ai
           \<and> intent ?ai \<noteq> ascii ''pano'' \<and> intent ?ai \<noteq> ascii ''project''"
    by (simp add: example_defs string_defs)
  note w = whitespace_question [OF h]
  note w2 = w [of demoEnv, THEN conjunct2, rule_format, OF r]
  have a: "fst (handleChat panoRouter (ask (ascii ''   '')) startState)
      \<noteq> Some (Answer (ascii ''question is required'') None)"
    using w [of panoRouter startState] by simp
  have b: "memory (snd (handleChat demoEnv (ask (ascii ''   '')) afterSchool)) = []"
    using w2 [of afterSchool] by simp
  have c: "take 4 (calls (snd (handleChat demoEnv (ask (ascii ''   '')) startState)))
      = [CallRouter [], CallCorrectSpelling [], CallNormalizeToMeaning [], CallCacheGet []]"
    using w2 [of startState] by (auto simp: example_defs)
  have d: "take 4 (calls (snd (handleChat demoEnv (ask (ascii ''   '')) afterSchool)))
      = [CallRouter [], CallCorrectSpelling (ascii ''school ''),
         CallNormalizeToMeaning (ascii ''school ''), CallCacheGet (ascii ''school '')]"
    using w2 [of afterSchool] by (auto simp: example_defs afterSchool_def ascii_def)
  from a b c d show ?thesis by simp
qed

end
